theory Spec2Isabelle
  imports Main
begin

section \<open>Values that cross the component boundary\<close>

text \<open>
  \<^verbatim>\<open>AppView.tsx\<close> is a React function component.  Its inputs are its props, two
  context values and one state slot; its result is an element tree, and its effects
  subscribe to and unsubscribe from two registries.

  Objects that AppView only passes on (endpoints, session info, the widget manager, ...)
  and functions supplied from outside are opaque: the model keeps their identity, a
  reference.  A value that the source dereferences or calls may be \<^verbatim>\<open>undefined\<close> at run
  time whatever its declared type; such a value is an \<open>option\<close>, and dereferencing
  \<open>None\<close> is the \<^verbatim>\<open>TypeError\<close> that JavaScript throws.
\<close>

type_synonym ref = nat

datatype js_error = TypeError

text \<open>An element of the page tree; AppView reads only its \<^verbatim>\<open>type\<close>.\<close>

record element =
  elem_type :: string

text \<open>
  The members of a \<^verbatim>\<open>BlockNode\<close> that AppView reads.  The class is imported from
  \<^verbatim>\<open>@streamlit/lib\<close>, so the three members are taken as given, independently of each
  other.  \<open>getElements\<close> is the returned set in iteration order.
\<close>

record BlockNode =
  isEmpty :: bool
  getElements :: "element list"
  scriptRunId :: string

record AppRoot =
  main :: "BlockNode option"
  sidebar :: "BlockNode option"
  event :: "BlockNode option"

type_synonym IAppPage = ref

text \<open>\<^verbatim>\<open>export interface AppViewProps\<close>, lines 48-80.\<close>

record AppViewProps =
  elements :: AppRoot
  endpoints :: ref
  sessionInfo :: ref
  sendMessageToHost :: "ref option"
  scriptRunId :: string
  scriptRunState :: ref
  widgetMgr :: ref
  uploadClient :: ref
  widgetsDisabled :: bool
  componentRegistry :: ref
  formsData :: ref
  appPages :: "IAppPage list option"
  onPageChange :: "ref option"
  currentPageScriptHash :: string
  hideSidebarNav :: bool

text \<open>The fields that AppView destructures from \<^verbatim>\<open>React.useContext(AppContext)\<close>, lines 86-96.\<close>

record AppContext =
  wideMode :: bool
  initialSidebarState :: ref
  embedded :: bool
  showPadding :: bool
  disableScrolling :: bool
  showFooter :: bool
  showToolbar :: bool
  showColoredLine :: bool
  toastAdjustment :: bool

text \<open>The fields that AppView destructures from \<^verbatim>\<open>React.useContext(LibContext)\<close>, lines 98-99.\<close>

record LibContext =
  addScriptFinishedHandler :: "ref option"
  removeScriptFinishedHandler :: "ref option"


section \<open>The element tree\<close>

text \<open>
  A React element is a description: a component, its props and its children.  AppView
  does not expand the components it names, so neither does the model.  A JSX child
  \<^verbatim>\<open>{cond && <X/>}\<close> evaluates to \<^verbatim>\<open>false\<close> when \<open>cond\<close> is false; React renders nothing
  for it.
\<close>

datatype component =
    StyledAppViewContainer
  | ThemedSidebar
  | ScrollToBottomContainer
  | StyledAppViewMain
  | StyledIFrameResizerAnchor
  | EventContainer
  | StyledAppViewBlockContainer
  | VerticalBlock

datatype js_value =
    JUndefined
  | JBool bool
  | JNum int
  | JStr string
  | JRef ref
  | JBlock BlockNode
  | JPages "IAppPage list"

datatype react_node =
    RFalse
  | RElement component "(string \<times> js_value) list" "react_node list"

fun js_ref :: "ref option \<Rightarrow> js_value" where
  "js_ref None = JUndefined"
| "js_ref (Some r) = JRef r"

fun js_pages :: "IAppPage list option \<Rightarrow> js_value" where
  "js_pages None = JUndefined"
| "js_pages (Some ps) = JPages ps"

fun component_of :: "react_node \<Rightarrow> component option" where
  "component_of RFalse = None"
| "component_of (RElement c ps cs) = Some c"

fun children :: "react_node \<Rightarrow> react_node list" where
  "children RFalse = []"
| "children (RElement c ps cs) = cs"

fun prop_of :: "react_node \<Rightarrow> string \<Rightarrow> js_value option" where
  "prop_of RFalse name = None"
| "prop_of (RElement c ps cs) name = map_of ps name"

text \<open>The children of a node that are elements of component \<open>c\<close>.\<close>

definition children_of_kind :: "component \<Rightarrow> react_node \<Rightarrow> react_node list" where
  "children_of_kind c n = filter (\<lambda>x. component_of x = Some c) (children n)"

text \<open>Whether component \<open>c\<close> occurs anywhere in the tree.\<close>

fun occurs :: "component \<Rightarrow> react_node \<Rightarrow> bool" where
  "occurs c RFalse = False"
| "occurs c (RElement k ps cs) = (k = c \<or> list_ex (occurs c) cs)"


section \<open>The render function\<close>

text \<open>
  Lines 124-127.  \<^verbatim>\<open>||\<close> and \<^verbatim>\<open>&&\<close> short-circuit, so \<^verbatim>\<open>appPages.length\<close> is read
  only when the sidebar region is empty and \<open>hideSidebarNav\<close> is false.
\<close>

definition showSidebar ::
  "bool \<Rightarrow> bool \<Rightarrow> IAppPage list option \<Rightarrow> bool \<Rightarrow> js_error + bool" where
  "showSidebar hasSidebarElements hideNav pages showSidebarOverride =
     (if hasSidebarElements then Inr True
      else if \<not> hideNav then
        (case pages of
           None \<Rightarrow> Inl TypeError
         | Some ps \<Rightarrow> if length ps > 1 then Inr True else Inr showSidebarOverride)
      else Inr showSidebarOverride)"

text \<open>Lines 131-134: \<^verbatim>\<open>Array.prototype.find\<close> returns the first match or \<^verbatim>\<open>undefined\<close>.\<close>

definition containsChatInput :: "BlockNode \<Rightarrow> bool" where
  "containsChatInput main_node =
     (find (\<lambda>element. elem_type element = ''chatInput'') (getElements main_node) \<noteq> None)"

text \<open>Lines 175-200.  The closure's free variables are parameters.\<close>

definition renderBlock ::
  "AppViewProps \<Rightarrow> AppContext \<Rightarrow> bool \<Rightarrow> bool \<Rightarrow> BlockNode \<Rightarrow> bool \<Rightarrow> react_node" where
  "renderBlock props ctx chat_input show_sidebar node events =
     RElement StyledAppViewBlockContainer
       [(''className'', JStr ''block-container''),
        (''data-testid'', JStr ''block-container''),
        (''isWideMode'', JBool (wideMode ctx)),
        (''showPadding'', JBool (showPadding ctx)),
        (''addPaddingForHeader'', JBool (showToolbar ctx \<or> showColoredLine ctx)),
        (''addPaddingForChatInput'', JBool chat_input),
        (''events'', JBool events),
        (''isEmbedded'', JBool (embedded ctx)),
        (''hasSidebar'', JBool show_sidebar)]
       [RElement VerticalBlock
          [(''node'', JBlock node),
           (''endpoints'', JRef (endpoints props)),
           (''sessionInfo'', JRef (sessionInfo props)),
           (''scriptRunId'', JStr (AppViewProps.scriptRunId props)),
           (''scriptRunState'', JRef (scriptRunState props)),
           (''widgetMgr'', JRef (widgetMgr props)),
           (''widgetsDisabled'', JBool (widgetsDisabled props)),
           (''uploadClient'', JRef (uploadClient props)),
           (''componentRegistry'', JRef (componentRegistry props)),
           (''formsData'', JRef (formsData props))]
          []]"

text \<open>
  The three regions of the returned tree.  Their free variables are parameters:
  \<open>show_sidebar\<close> and \<open>chat_input\<close> are the constants \<^verbatim>\<open>showSidebar\<close> and
  \<^verbatim>\<open>containsChatInput\<close> of the function body.
\<close>

text \<open>Lines 209-221.\<close>

definition sidebar_region ::
  "AppViewProps \<Rightarrow> AppContext \<Rightarrow> bool \<Rightarrow> bool \<Rightarrow> BlockNode \<Rightarrow> react_node" where
  "sidebar_region props ctx chat_input show_sidebar sidebar_node =
     (if show_sidebar then
        RElement ThemedSidebar
          [(''endpoints'', JRef (endpoints props)),
           (''initialSidebarState'', JRef (initialSidebarState ctx)),
           (''appPages'', js_pages (appPages props)),
           (''hasElements'', JBool (\<not> isEmpty sidebar_node)),
           (''onPageChange'', js_ref (onPageChange props)),
           (''currentPageScriptHash'', JStr (currentPageScriptHash props)),
           (''hideSidebarNav'', JBool (hideSidebarNav props))]
          [renderBlock props ctx chat_input show_sidebar sidebar_node False]
      else RFalse)"

text \<open>Lines 135-137 and 222-239.\<close>

definition main_region ::
  "AppViewProps \<Rightarrow> AppContext \<Rightarrow> bool \<Rightarrow> bool \<Rightarrow> BlockNode \<Rightarrow> react_node" where
  "main_region props ctx chat_input show_sidebar main_node =
     RElement (if chat_input then ScrollToBottomContainer else StyledAppViewMain)
       [(''tabIndex'', JNum 0),
        (''isEmbedded'', JBool (embedded ctx)),
        (''disableScrolling'', JBool (disableScrolling ctx)),
        (''className'', JStr ''main'')]
       [renderBlock props ctx chat_input show_sidebar main_node False,
        if \<not> chat_input then
          RElement StyledIFrameResizerAnchor
            [(''data-testid'', JStr ''IframeResizerAnchor''),
             (''data-iframe-height'', JBool True)]
            []
        else RFalse]"

text \<open>Lines 240-247.\<close>

definition event_region ::
  "AppViewProps \<Rightarrow> AppContext \<Rightarrow> bool \<Rightarrow> bool \<Rightarrow> BlockNode \<Rightarrow> react_node" where
  "event_region props ctx chat_input show_sidebar event_node =
     (if \<not> isEmpty event_node then
        RElement EventContainer
          [(''toastAdjustment'', JBool (toastAdjustment ctx)),
           (''scriptRunId'', JStr (BlockNode.scriptRunId event_node))]
          [renderBlock props ctx chat_input show_sidebar event_node True]
      else RFalse)"

text \<open>
  What one call of the function body computes: the local constants that the hooks and
  the claims refer to (\<open>shown\<close> is \<^verbatim>\<open>showSidebar\<close>, \<open>chat\<close> is \<^verbatim>\<open>containsChatInput\<close>), and
  the returned tree.
\<close>

record view =
  layout :: string
  hasSidebarElements :: bool
  hasEventElements :: bool
  shown :: bool
  chat :: bool
  tree :: react_node

text \<open>
  Lines 119-134 and 203-249, in evaluation order.  The third argument is the value that
  \<^verbatim>\<open>React.useState(false)\<close> returns for this render.
\<close>

definition AppView :: "AppViewProps \<Rightarrow> AppContext \<Rightarrow> bool \<Rightarrow> js_error + view" where
  "AppView props ctx showSidebarOverride =
     (case sidebar (elements props) of
        None \<Rightarrow> Inl TypeError
      | Some sidebar_node \<Rightarrow>
     (case event (elements props) of
        None \<Rightarrow> Inl TypeError
      | Some event_node \<Rightarrow>
     (case showSidebar (\<not> isEmpty sidebar_node) (hideSidebarNav props) (appPages props)
             showSidebarOverride of
        Inl e \<Rightarrow> Inl e
      | Inr show_sidebar \<Rightarrow>
     (case main (elements props) of
        None \<Rightarrow> Inl TypeError
      | Some main_node \<Rightarrow>
         Inr \<lparr> layout = (if wideMode ctx then ''wide'' else ''narrow''),
               hasSidebarElements = \<not> isEmpty sidebar_node,
               hasEventElements = \<not> isEmpty event_node,
               shown = show_sidebar,
               chat = containsChatInput main_node,
               tree =
                 RElement StyledAppViewContainer
                   [(''className'', JStr ''appview-container''),
                    (''data-testid'', JStr ''stAppViewContainer''),
                    (''data-layout'', JStr (if wideMode ctx then ''wide'' else ''narrow''))]
                   [sidebar_region props ctx (containsChatInput main_node) show_sidebar
                      sidebar_node,
                    main_region props ctx (containsChatInput main_node) show_sidebar main_node,
                    event_region props ctx (containsChatInput main_node) show_sidebar
                      event_node] \<rparr>))))"

text \<open>Inputs of the declared types: every region present, a page list, every callback defined.\<close>

definition well_formed :: "AppViewProps \<Rightarrow> LibContext \<Rightarrow> bool" where
  "well_formed props lib =
     (main (elements props) \<noteq> None \<and> sidebar (elements props) \<noteq> None \<and>
      event (elements props) \<noteq> None \<and> appPages props \<noteq> None \<and>
      sendMessageToHost props \<noteq> None \<and> onPageChange props \<noteq> None \<and>
      addScriptFinishedHandler lib \<noteq> None \<and> removeScriptFinishedHandler lib \<noteq> None)"


section \<open>Function objects, registries and the page\<close>

text \<open>
  A JavaScript function is an object with an identity; the listener registries compare
  functions by identity.  Every evaluation of an arrow function creates a new object, so
  a function that AppView creates carries a number drawn from a counter, together with
  the variables it captured:
  \<^item> \<open>Listener\<close> is \<^verbatim>\<open>listener\<close> of line 140, which captures \<^verbatim>\<open>sendMessageToHost\<close>;
  \<^item> \<open>Handler\<close> is the arrow function of line 157, which captures
    \<^verbatim>\<open>hasSidebarElements\<close> and \<^verbatim>\<open>showSidebarOverride\<close>;
  \<^item> \<open>External\<close> is any function that other code created.
\<close>

datatype fn =
    External ref
  | Listener nat "ref option"
  | Handler nat bool bool

text \<open>The message of lines 141-144.\<close>

record IGuestToHostMessage =
  msg_type :: string
  hash :: string

text \<open>
  The cleanup functions that the effects return: line 147, which captures \<^verbatim>\<open>listener\<close>,
  and lines 166-168, which capture \<^verbatim>\<open>removeScriptFinishedHandler\<close> and
  \<^verbatim>\<open>scriptFinishedHandler\<close>.
\<close>

datatype cleanup =
    RemoveEventListener string fn bool
  | RemoveScriptFinishedHandler "ref option" fn

text \<open>
  What AppView can observe or change outside itself: \<^verbatim>\<open>window.location.hash\<close>, the
  window's event listener list, the script-finished handlers of the host runtime, the
  messages handed to \<^verbatim>\<open>sendMessageToHost\<close> (with the function that received them), the
  exceptions that event listeners left uncaught, and the counter of function objects.
\<close>

record page =
  location_hash :: string
  listeners :: "(string \<times> fn \<times> bool) list"
  scriptFinishedHandlers :: "fn list"
  outbox :: "(ref \<times> IGuestToHostMessage) list"
  uncaught :: "js_error list"
  next_id :: nat

text \<open>
  \<^verbatim>\<open>window.addEventListener\<close> and \<^verbatim>\<open>window.removeEventListener\<close> as the DOM standard
  defines them: a listener is the triple of type, callback and capture flag; adding a
  triple that is already in the list does nothing; removing takes the matching triple out.
\<close>

definition addEventListener :: "string \<Rightarrow> fn \<Rightarrow> bool \<Rightarrow> page \<Rightarrow> page" where
  "addEventListener ty callback capture p =
     (if (ty, callback, capture) \<in> set (listeners p) then p
      else p\<lparr>listeners := listeners p @ [(ty, callback, capture)]\<rparr>)"

definition removeEventListener :: "string \<Rightarrow> fn \<Rightarrow> bool \<Rightarrow> page \<Rightarrow> page" where
  "removeEventListener ty callback capture p =
     p\<lparr>listeners := remove1 (ty, callback, capture) (listeners p)\<rparr>"

text \<open>
  Modelled from the spec: the bodies of \<^verbatim>\<open>addScriptFinishedHandler\<close> and
  \<^verbatim>\<open>removeScriptFinishedHandler\<close>, which \<^verbatim>\<open>LibContext\<close> supplies and which are not part of
  the sources at hand.  The spec calls the pair a callback subscription that is
  "subscribed/unsubscribed symmetrically": adding registers the handler, removing takes
  one registration of it out.
\<close>

definition add_handler :: "fn \<Rightarrow> page \<Rightarrow> page" where
  "add_handler h p = p\<lparr>scriptFinishedHandlers := scriptFinishedHandlers p @ [h]\<rparr>"

definition remove_handler :: "fn \<Rightarrow> page \<Rightarrow> page" where
  "remove_handler h p = p\<lparr>scriptFinishedHandlers := remove1 h (scriptFinishedHandlers p)\<rparr>"

text \<open>Calling a cleanup function.  Calling \<^verbatim>\<open>undefined\<close> throws.\<close>

fun run_cleanup :: "cleanup \<Rightarrow> page \<Rightarrow> js_error + page" where
  "run_cleanup (RemoveEventListener ty callback capture) p =
     Inr (removeEventListener ty callback capture p)"
| "run_cleanup (RemoveScriptFinishedHandler None h) p = Inl TypeError"
| "run_cleanup (RemoveScriptFinishedHandler (Some r) h) p = Inr (remove_handler h p)"


section \<open>Hooks\<close>

text \<open>
  The hook slots of one mounted AppView, in the order of the calls: the state of
  \<^verbatim>\<open>useState\<close> (line 122); for each \<^verbatim>\<open>useEffect\<close> the dependencies of its last run
  and, where it returned one, its cleanup (lines 139-148, 150-155, 164-173); for
  \<^verbatim>\<open>useCallback\<close> the dependencies and the function it memoised (lines 157-162).
\<close>

record hooks =
  showSidebarOverride :: bool
  hashchange_effect :: "(ref option \<times> cleanup) option"
  override_effect :: "(bool \<times> bool \<times> bool) option"
  scriptFinishedHandler :: "((bool \<times> bool) \<times> fn) option"
  handler_effect :: "((fn \<times> ref option \<times> ref option) \<times> cleanup) option"

definition initial_hooks :: hooks where
  "initial_hooks =
     \<lparr> showSidebarOverride = False,
       hashchange_effect = None,
       override_effect = None,
       scriptFinishedHandler = None,
       handler_effect = None \<rparr>"

text \<open>An effect runs after the first render, and after a render that changed a dependency.\<close>

definition deps_changed :: "('d \<times> 'c) option \<Rightarrow> 'd \<Rightarrow> bool" where
  "deps_changed slot deps = (case slot of None \<Rightarrow> True | Some (d, c) \<Rightarrow> d \<noteq> deps)"

text \<open>Before an effect runs again, React calls the cleanup of its last run.\<close>

definition cleanup_slot :: "('d \<times> cleanup) option \<Rightarrow> page \<Rightarrow> js_error + page" where
  "cleanup_slot slot p = (case slot of None \<Rightarrow> Inr p | Some (d, c) \<Rightarrow> run_cleanup c p)"

text \<open>Lines 139-148: the body of the first effect; it returns its cleanup.\<close>

definition hashchange_setup :: "ref option \<Rightarrow> page \<Rightarrow> cleanup \<times> page" where
  "hashchange_setup send p =
     (let listener = Listener (next_id p) send in
      (RemoveEventListener ''hashchange'' listener False,
       addEventListener ''hashchange'' listener False (p\<lparr>next_id := Suc (next_id p)\<rparr>)))"

text \<open>
  Lines 150-155: the body of the second effect, as the state that it leaves.
  \<^verbatim>\<open>setShowSidebarOverride(true)\<close> makes the state true.
\<close>

definition override_setup :: "bool \<Rightarrow> bool \<Rightarrow> bool \<Rightarrow> bool" where
  "override_setup show_sidebar hideNav rendered =
     (if show_sidebar \<and> hideNav \<and> \<not> rendered then True else rendered)"

text \<open>Lines 164-173: the body of the third effect; it returns its cleanup.\<close>

definition handler_setup ::
  "fn \<Rightarrow> ref option \<Rightarrow> ref option \<Rightarrow> page \<Rightarrow> js_error + cleanup \<times> page" where
  "handler_setup handler add remove p =
     (case add of
        None \<Rightarrow> Inl TypeError
      | Some a \<Rightarrow> Inr (RemoveScriptFinishedHandler remove handler, add_handler handler p))"

text \<open>
  Lines 157-162.  The arrow function is evaluated at every render; \<^verbatim>\<open>useCallback\<close>
  returns the memoised one when the dependencies are those of the memoised one.
\<close>

definition useCallback_handler :: "bool \<Rightarrow> bool \<Rightarrow> hooks \<Rightarrow> nat \<Rightarrow> fn" where
  "useCallback_handler has_sidebar rendered hk n =
     (case scriptFinishedHandler hk of
        None \<Rightarrow> Handler n has_sidebar rendered
      | Some (deps, f) \<Rightarrow>
          if deps = (has_sidebar, rendered) then f else Handler n has_sidebar rendered)"

text \<open>
  The effects after a render, given what the render computed and the function that
  \<^verbatim>\<open>useCallback\<close> returned.  React first calls the cleanups of the effects whose
  dependencies changed, in order, then runs those effects, in order.  An exception in
  any of them ends the pass.
\<close>

definition run_effects ::
  "AppViewProps \<Rightarrow> LibContext \<Rightarrow> view \<Rightarrow> fn \<Rightarrow> hooks \<Rightarrow> page \<Rightarrow> js_error + hooks \<times> page"
  where
  "run_effects props lib v handler hk p =
     (let rendered = showSidebarOverride hk;
          deps1 = sendMessageToHost props;
          deps2 = (shown v, hideSidebarNav props, rendered);
          deps3 = (handler, addScriptFinishedHandler lib, removeScriptFinishedHandler lib);
          run1 = deps_changed (hashchange_effect hk) deps1;
          run2 = (case override_effect hk of None \<Rightarrow> True | Some d \<Rightarrow> d \<noteq> deps2);
          run3 = deps_changed (handler_effect hk) deps3
      in
      case (if run1 then cleanup_slot (hashchange_effect hk) p else Inr p) of
        Inl e \<Rightarrow> Inl e
      | Inr p1 \<Rightarrow>
     (case (if run3 then cleanup_slot (handler_effect hk) p1 else Inr p1) of
        Inl e \<Rightarrow> Inl e
      | Inr p2 \<Rightarrow>
     (let (slot1, p3) =
            (if run1 then (let (c, q) = hashchange_setup deps1 p2 in (Some (deps1, c), q))
             else (hashchange_effect hk, p2));
          st = (if run2 then override_setup (shown v) (hideSidebarNav props) rendered
                else rendered)
      in
      case (if run3 then
              (case handler_setup handler (addScriptFinishedHandler lib)
                      (removeScriptFinishedHandler lib) p3 of
                 Inl e \<Rightarrow> Inl e
               | Inr (c, q) \<Rightarrow> Inr (Some (deps3, c), q))
            else Inr (handler_effect hk, p3)) of
        Inl e \<Rightarrow> Inl e
      | Inr (slot3, p4) \<Rightarrow>
          Inr (\<lparr> showSidebarOverride = st,
                 hashchange_effect = slot1,
                 override_effect = Some deps2,
                 scriptFinishedHandler =
                   Some ((hasSidebarElements v, rendered), handler),
                 handler_effect = slot3 \<rparr>,
               p4))))"

text \<open>
  One render pass: the function body runs, with the state as it is; an exception in it
  ends the pass.  Then the effects run.
\<close>

definition commit ::
  "AppViewProps \<Rightarrow> AppContext \<Rightarrow> LibContext \<Rightarrow> hooks \<Rightarrow> page \<Rightarrow> js_error + view \<times> hooks \<times> page"
  where
  "commit props ctx lib hk p =
     (case AppView props ctx (showSidebarOverride hk) of
        Inl e \<Rightarrow> Inl e
      | Inr v \<Rightarrow>
     (case run_effects props lib v
             (useCallback_handler (hasSidebarElements v) (showSidebarOverride hk) hk (next_id p))
             hk (p\<lparr>next_id := Suc (next_id p)\<rparr>) of
        Inl e \<Rightarrow> Inl e
      | Inr (hk', p') \<Rightarrow> Inr (v, hk', p')))"

text \<open>
  A state change made by an effect makes React render again, with the same props, until
  a pass leaves the state as it rendered it.
\<close>

function settle ::
  "AppViewProps \<Rightarrow> AppContext \<Rightarrow> LibContext \<Rightarrow> hooks \<Rightarrow> page \<Rightarrow> js_error + view \<times> hooks \<times> page"
  where
  "settle props ctx lib hk p =
     (case commit props ctx lib hk p of
        Inl e \<Rightarrow> Inl e
      | Inr (v, hk', p') \<Rightarrow>
          if showSidebarOverride hk' = showSidebarOverride hk then Inr (v, hk', p')
          else settle props ctx lib hk' p')"
  by pat_completeness auto
termination
proof (relation "measure (\<lambda>(props, ctx, lib, hk, p). if showSidebarOverride hk then 0 else 1)")
  show "wf (measure (\<lambda>(props, ctx, lib, hk, p). if showSidebarOverride hk then 0 else (1::nat)))"
    by simp
next
  fix props ctx lib hk p x v y hk' p'
  assume c: "commit props ctx lib hk p = Inr x" and x: "(v, y) = x" and y: "(hk', p') = y"
    and ne: "showSidebarOverride hk' \<noteq> showSidebarOverride hk"
  from c x y have "commit props ctx lib hk p = Inr (v, hk', p')" by simp
  then have "showSidebarOverride hk' =
      (if (case override_effect hk of None \<Rightarrow> True
           | Some d \<Rightarrow> d \<noteq> (shown v, hideSidebarNav props, showSidebarOverride hk))
       then override_setup (shown v) (hideSidebarNav props) (showSidebarOverride hk)
       else showSidebarOverride hk)"
    by (auto simp: commit_def run_effects_def Let_def split: sum.splits prod.splits if_splits)
  with ne have "showSidebarOverride hk' \<and> \<not> showSidebarOverride hk"
    by (auto simp: override_setup_def split: if_splits)
  then show "((props, ctx, lib, hk', p'), (props, ctx, lib, hk, p))
      \<in> measure (\<lambda>(props, ctx, lib, hk, p). if showSidebarOverride hk then 0 else 1)"
    by simp
qed

declare settle.simps [simp del]


section \<open>The life of a mounted AppView\<close>

text \<open>
  A mounted component is its latest props and context values together with its hooks.
  The application is the page and the mounted AppView, if there is one.
\<close>

record fiber =
  fiber_props :: AppViewProps
  fiber_ctx :: AppContext
  fiber_lib :: LibContext
  fiber_hooks :: hooks

type_synonym app = "fiber option \<times> page"

text \<open>
  Calling a function as an event listener (lines 140-145).  What a function of other
  code does is outside the model; it leaves the modelled page as it is.
\<close>

fun call_listener :: "fn \<Rightarrow> page \<Rightarrow> js_error + page" where
  "call_listener (Listener i None) p = Inl TypeError"
| "call_listener (Listener i (Some send)) p =
     Inr (p\<lparr>outbox := outbox p @
            [(send, \<lparr>msg_type = ''UPDATE_HASH'', hash = location_hash p\<rparr>)]\<rparr>)"
| "call_listener f p = Inr p"

text \<open>
  The window dispatches an event to the listeners of its type, in order.  An exception
  that a listener throws is reported and does not stop the dispatch.
\<close>

fun dispatchEvent :: "string \<Rightarrow> (string \<times> fn \<times> bool) list \<Rightarrow> page \<Rightarrow> page" where
  "dispatchEvent ty [] p = p"
| "dispatchEvent ty ((ty', f, capture) # ls) p =
     (if ty' = ty then
        dispatchEvent ty ls
          (case call_listener f p of
             Inl e \<Rightarrow> p\<lparr>uncaught := uncaught p @ [e]\<rparr>
           | Inr p' \<Rightarrow> p')
      else dispatchEvent ty ls p)"

text \<open>
  Calling a function as a script-finished handler (lines 157-161), as the state of the
  mounted AppView that it leaves.  \<^verbatim>\<open>setShowSidebarOverride(false)\<close> makes the state false.
\<close>

fun call_handler :: "fn \<Rightarrow> bool \<Rightarrow> bool" where
  "call_handler (Handler i has_sidebar rendered) st =
     (if \<not> has_sidebar \<and> rendered then False else st)"
| "call_handler f st = st"

text \<open>Unmounting calls the cleanup of every effect, in order.\<close>

definition unmount :: "hooks \<Rightarrow> page \<Rightarrow> js_error + page" where
  "unmount hk p =
     (case cleanup_slot (hashchange_effect hk) p of
        Inl e \<Rightarrow> Inl e
      | Inr p1 \<Rightarrow> cleanup_slot (handler_effect hk) p1)"

text \<open>
  What can happen to the application:
  \<^item> \<open>Render\<close>: the parent renders AppView with these props under these context values;
    this mounts it when it is not mounted;
  \<^item> \<open>Unmount\<close>: the parent stops rendering it;
  \<^item> \<open>HashChange\<close>: the browser sets \<^verbatim>\<open>window.location.hash\<close> and fires \<^verbatim>\<open>hashchange\<close>;
  \<^item> \<open>ScriptFinished\<close>: the host runtime reports the end of a script run.  Modelled from
    the spec ("script-execution lifecycle events from a host runtime", "a script-finished
    callback subscription"): the runtime, which is not part of the sources at hand,
    calls every registered handler in order; a handler that changed the state makes React
    render again.
\<close>

datatype event =
    Render AppViewProps AppContext LibContext
  | Unmount
  | HashChange string
  | ScriptFinished

definition render :: "AppViewProps \<Rightarrow> AppContext \<Rightarrow> LibContext \<Rightarrow> hooks \<Rightarrow> page \<Rightarrow> js_error + app"
  where
  "render props ctx lib hk p =
     (case settle props ctx lib hk p of
        Inl e \<Rightarrow> Inl e
      | Inr (v, hk', p') \<Rightarrow>
          Inr (Some \<lparr>fiber_props = props, fiber_ctx = ctx, fiber_lib = lib, fiber_hooks = hk'\<rparr>,
               p'))"

fun step :: "event \<Rightarrow> app \<Rightarrow> js_error + app" where
  "step (Render props ctx lib) (None, p) = render props ctx lib initial_hooks p"
| "step (Render props ctx lib) (Some fb, p) = render props ctx lib (fiber_hooks fb) p"
| "step Unmount (None, p) = Inr (None, p)"
| "step Unmount (Some fb, p) =
     (case unmount (fiber_hooks fb) p of Inl e \<Rightarrow> Inl e | Inr p' \<Rightarrow> Inr (None, p'))"
| "step (HashChange h) (m, p) =
     Inr (m, dispatchEvent ''hashchange'' (listeners p) (p\<lparr>location_hash := h\<rparr>))"
| "step ScriptFinished (None, p) = Inr (None, p)"
| "step ScriptFinished (Some fb, p) =
     (let st = fold call_handler (scriptFinishedHandlers p)
                 (showSidebarOverride (fiber_hooks fb))
      in if st = showSidebarOverride (fiber_hooks fb) then Inr (Some fb, p)
         else render (fiber_props fb) (fiber_ctx fb) (fiber_lib fb)
                ((fiber_hooks fb)\<lparr>showSidebarOverride := st\<rparr>) p)"

fun run :: "event list \<Rightarrow> app \<Rightarrow> js_error + app" where
  "run [] a = Inr a"
| "run (e # es) a = (case step e a of Inl err \<Rightarrow> Inl err | Inr a' \<Rightarrow> run es a')"

text \<open>
  The application before AppView is first mounted: the page holds only listeners and
  handlers of other code, and nothing has been sent.
\<close>

definition initial_app :: "string \<Rightarrow> (string \<times> ref \<times> bool) list \<Rightarrow> ref list \<Rightarrow> app" where
  "initial_app h ls hs =
     (None,
      \<lparr> location_hash = h,
        listeners = map (\<lambda>(ty, r, capture). (ty, External r, capture)) ls,
        scriptFinishedHandlers = map External hs,
        outbox = [],
        uncaught = [],
        next_id = 0 \<rparr>)"


section \<open>Invariants of the application\<close>

text \<open>The functions that AppView created, and those created before the counter reached \<open>n\<close>.\<close>

fun own :: "fn \<Rightarrow> bool" where
  "own (External r) = False"
| "own (Listener i send) = True"
| "own (Handler i has_sidebar rendered) = True"

fun older :: "nat \<Rightarrow> fn \<Rightarrow> bool" where
  "older n (External r) = True"
| "older n (Listener i send) = (i < n)"
| "older n (Handler i has_sidebar rendered) = (i < n)"

fun own_listener :: "string \<times> fn \<times> bool \<Rightarrow> bool" where
  "own_listener (ty, f, capture) = own f"

text \<open>Every function object in a registry was created before the counter's present value.\<close>

definition fresh_page :: "page \<Rightarrow> bool" where
  "fresh_page p =
     (list_all (\<lambda>(ty, f, capture). older (next_id p) f) (listeners p) \<and>
      list_all (older (next_id p)) (scriptFinishedHandlers p))"

text \<open>No registry holds a function that AppView created.\<close>

definition unsubscribed :: "page \<Rightarrow> bool" where
  "unsubscribed p =
     (filter own_listener (listeners p) = [] \<and> filter own (scriptFinishedHandlers p) = [])"

text \<open>
  The state of a mounted AppView after a render pass with these props and context values
  that rendered the state \<open>rendered\<close>: the window holds exactly one listener of AppView,
  the one whose cleanup the first effect keeps, and it captured the props'
  \<open>sendMessageToHost\<close>; the host runtime holds exactly one handler of AppView, the
  memoised one, whose cleanup the third effect keeps, and it captured the values of that
  render; and a render that asked for the override has it set.
\<close>

definition hooks_inv ::
  "AppViewProps \<Rightarrow> AppContext \<Rightarrow> LibContext \<Rightarrow> bool \<Rightarrow> hooks \<Rightarrow> page \<Rightarrow> bool" where
  "hooks_inv props ctx lib rendered hk p =
     (\<exists>i j v.
        AppView props ctx rendered = Inr v \<and>
        hashchange_effect hk =
          Some (sendMessageToHost props,
                RemoveEventListener ''hashchange'' (Listener i (sendMessageToHost props)) False) \<and>
        filter own_listener (listeners p) =
          [(''hashchange'', Listener i (sendMessageToHost props), False)] \<and>
        override_effect hk = Some (shown v, hideSidebarNav props, rendered) \<and>
        scriptFinishedHandler hk =
          Some ((hasSidebarElements v, rendered), Handler j (hasSidebarElements v) rendered) \<and>
        handler_effect hk =
          Some ((Handler j (hasSidebarElements v) rendered,
                 addScriptFinishedHandler lib, removeScriptFinishedHandler lib),
                RemoveScriptFinishedHandler (removeScriptFinishedHandler lib)
                  (Handler j (hasSidebarElements v) rendered)) \<and>
        addScriptFinishedHandler lib \<noteq> None \<and>
        filter own (scriptFinishedHandlers p) = [Handler j (hasSidebarElements v) rendered] \<and>
        (shown v \<and> hideSidebarNav props \<and> \<not> rendered \<longrightarrow> showSidebarOverride hk) \<and>
        fresh_page p)"

text \<open>The hooks before a render pass: those of a component about to mount, or those that an
  earlier pass left.\<close>

definition hooks_pre :: "hooks \<Rightarrow> page \<Rightarrow> bool" where
  "hooks_pre hk p =
     ((hk = initial_hooks \<and> unsubscribed p \<and> fresh_page p) \<or>
      (\<exists>props ctx lib rendered. hooks_inv props ctx lib rendered hk p))"

text \<open>The invariant of the application between events.\<close>

fun app_inv :: "app \<Rightarrow> bool" where
  "app_inv (None, p) = (unsubscribed p \<and> fresh_page p)"
| "app_inv (Some fb, p) =
     hooks_inv (fiber_props fb) (fiber_ctx fb) (fiber_lib fb)
       (showSidebarOverride (fiber_hooks fb)) (fiber_hooks fb) p"

text \<open>What no event but \<open>HashChange\<close> changes, and what AppView never changes: the messages
  sent, the uncaught exceptions, the location hash, and the registrations of other code.\<close>

definition same_outside :: "page \<Rightarrow> page \<Rightarrow> bool" where
  "same_outside p p' =
     (outbox p' = outbox p \<and> uncaught p' = uncaught p \<and> location_hash p' = location_hash p \<and>
      filter (\<lambda>l. \<not> own_listener l) (listeners p') = filter (\<lambda>l. \<not> own_listener l) (listeners p) \<and>
      filter (\<lambda>f. \<not> own f) (scriptFinishedHandlers p') =
        filter (\<lambda>f. \<not> own f) (scriptFinishedHandlers p))"


text \<open>
  The value that \<^verbatim>\<open>React.useState(false)\<close> returns at the next render: the state of the
  mounted AppView, and the initial value for one about to mount.
\<close>

fun current_override :: "fiber option \<Rightarrow> bool" where
  "current_override None = False"
| "current_override (Some fb) = showSidebarOverride (fiber_hooks fb)"

text \<open>The events that neither unmount AppView nor call its script-finished handler.\<close>

fun keeps_mounted :: "event \<Rightarrow> bool" where
  "keeps_mounted (Render props ctx lib) = True"
| "keeps_mounted (HashChange h) = True"
| "keeps_mounted Unmount = False"
| "keeps_mounted ScriptFinished = False"

text \<open>The cleanup that the third effect keeps, if any, calls a function that is defined.\<close>

definition cleanups_defined :: "hooks \<Rightarrow> bool" where
  "cleanups_defined hk =
     (case handler_effect hk of
        Some (d, RemoveScriptFinishedHandler None h) \<Rightarrow> False
      | _ \<Rightarrow> True)"

text \<open>Events whose inputs are of the declared types, and an application that was last
  rendered with such inputs.\<close>

fun wf_event :: "event \<Rightarrow> bool" where
  "wf_event (Render props ctx lib) = well_formed props lib"
| "wf_event e = True"

fun wf_app :: "app \<Rightarrow> bool" where
  "wf_app (None, p) = True"
| "wf_app (Some fb, p) = well_formed (fiber_props fb) (fiber_lib fb)"


section \<open>The application URL context\<close>

text \<open>\<^verbatim>\<open>AppUrlContext.ts\<close>, lines 19-29.  A \<^verbatim>\<open>URLSearchParams\<close> is its list of pairs.\<close>

record StreamlitAppPage =
  pageName :: string
  pageScriptHash :: string
  icon :: "string option"

type_synonym URLSearchParams = "(string \<times> string) list"

record AppUrl =
  appPages :: "StreamlitAppPage list"
  currentPageScriptHash :: string
  queryParams :: URLSearchParams












section \<open>Sample inputs\<close>

text \<open>Concrete inputs on which the theorems below are instantiated.\<close>

definition sample_block :: "bool \<Rightarrow> string list \<Rightarrow> BlockNode" where
  "sample_block is_empty types =
     \<lparr> isEmpty = is_empty,
       getElements = map (\<lambda>t. \<lparr>elem_type = t\<rparr>) types,
       scriptRunId = ''run-7'' \<rparr>"

text \<open>
  Props with the given main elements, sidebar emptiness, event emptiness, number of pages
  and \<open>hideSidebarNav\<close>.
\<close>

definition sample_props :: "string list \<Rightarrow> bool \<Rightarrow> bool \<Rightarrow> nat \<Rightarrow> bool \<Rightarrow> AppViewProps" where
  "sample_props types sidebar_empty event_empty n hide =
     \<lparr> elements =
         \<lparr> main = Some (sample_block False types),
           sidebar = Some (sample_block sidebar_empty []),
           event = Some (sample_block event_empty []) \<rparr>,
       endpoints = 1,
       sessionInfo = 2,
       sendMessageToHost = Some 3,
       scriptRunId = ''run-8'',
       scriptRunState = 4,
       widgetMgr = 5,
       uploadClient = 6,
       widgetsDisabled = False,
       componentRegistry = 7,
       formsData = 8,
       appPages = Some (replicate n 0),
       onPageChange = Some 9,
       currentPageScriptHash = ''page-hash'',
       hideSidebarNav = hide \<rparr>"

definition sample_ctx :: "bool \<Rightarrow> AppContext" where
  "sample_ctx wide =
     \<lparr> wideMode = wide,
       initialSidebarState = 0,
       embedded = False,
       showPadding = True,
       disableScrolling = False,
       showFooter = True,
       showToolbar = True,
       showColoredLine = False,
       toastAdjustment = False \<rparr>"

definition sample_lib :: LibContext where
  "sample_lib = \<lparr> addScriptFinishedHandler = Some 10, removeScriptFinishedHandler = Some 11 \<rparr>"


text \<open>
  A page with one \<^verbatim>\<open>hashchange\<close> listener and one script-finished handler of other code,
  and the application after AppView mounted on it with a non-empty sidebar region, two
  pages and \<open>hideSidebarNav\<close>: the first pass set the override and a second pass
  rendered it.
\<close>

definition sample_initial :: app where
  "sample_initial = initial_app ''#a'' [(''hashchange'', 77, False)] [88]"

definition sample_mount :: event where
  "sample_mount = Render (sample_props [] False True 2 True) (sample_ctx False) sample_lib"

definition sample_fiber :: fiber where
  "sample_fiber =
     \<lparr> fiber_props = sample_props [] False True 2 True,
       fiber_ctx = sample_ctx False,
       fiber_lib = sample_lib,
       fiber_hooks =
         \<lparr> showSidebarOverride = True,
           hashchange_effect =
             Some (Some 3, RemoveEventListener ''hashchange'' (Listener 1 (Some 3)) False),
           override_effect = Some (True, True, True),
           scriptFinishedHandler = Some ((True, True), Handler 2 True True),
           handler_effect =
             Some ((Handler 2 True True, Some 10, Some 11),
                   RemoveScriptFinishedHandler (Some 11) (Handler 2 True True)) \<rparr> \<rparr>"

definition sample_page :: page where
  "sample_page =
     \<lparr> location_hash = ''#a'',
       listeners =
         [(''hashchange'', External 77, False), (''hashchange'', Listener 1 (Some 3), False)],
       scriptFinishedHandlers = [External 88, Handler 2 True True],
       outbox = [],
       uncaught = [],
       next_id = 3 \<rparr>"



section \<open>The rendered tree\<close>

lemma AppView_well_formed:
  "well_formed props lib \<Longrightarrow> \<exists>v. AppView props ctx ov = Inr v"
  by (auto simp: well_formed_def AppView_def showSidebar_def)

text \<open>What a render that returns has read, and what it returns.\<close>

lemma AppView_Inr:
  assumes "AppView props ctx ov = Inr v"
  obtains sb ev m where
    "sidebar (elements props) = Some sb"
    "event (elements props) = Some ev"
    "main (elements props) = Some m"
    "showSidebar (\<not> isEmpty sb) (hideSidebarNav props) (AppViewProps.appPages props) ov =
       Inr (shown v)"
    "layout v = (if wideMode ctx then ''wide'' else ''narrow'')"
    "hasSidebarElements v = (\<not> isEmpty sb)"
    "hasEventElements v = (\<not> isEmpty ev)"
    "chat v = containsChatInput m"
    "tree v =
       RElement StyledAppViewContainer
         [(''className'', JStr ''appview-container''),
          (''data-testid'', JStr ''stAppViewContainer''),
          (''data-layout'', JStr (if wideMode ctx then ''wide'' else ''narrow''))]
         [sidebar_region props ctx (chat v) (shown v) sb,
          main_region props ctx (chat v) (shown v) m,
          event_region props ctx (chat v) (shown v) ev]"
  using assms unfolding AppView_def
  by (auto split: option.splits sum.splits)

lemma showSidebar_Inr:
  "showSidebar h hide (Some ps) ov = Inr s \<Longrightarrow> s = (h \<or> (\<not> hide \<and> length ps > 1) \<or> ov)"
  by (auto simp: showSidebar_def split: if_splits)

lemma showSidebar_override:
  "showSidebar h hide pages True = Inr s \<Longrightarrow> s"
  by (auto simp: showSidebar_def split: if_splits option.splits)

lemma occurs_renderBlock:
  "occurs c (renderBlock props ctx ch s node evs) \<longleftrightarrow>
     c = StyledAppViewBlockContainer \<or> c = VerticalBlock"
  by (auto simp: renderBlock_def)

lemma occurs_sidebar_region:
  "occurs c (sidebar_region props ctx ch s sb) \<longleftrightarrow>
     s \<and> (c = ThemedSidebar \<or> c = StyledAppViewBlockContainer \<or> c = VerticalBlock)"
  by (auto simp: sidebar_region_def occurs_renderBlock)

lemma occurs_main_region:
  "occurs c (main_region props ctx ch s m) \<longleftrightarrow>
     c = (if ch then ScrollToBottomContainer else StyledAppViewMain) \<or>
     c = StyledAppViewBlockContainer \<or> c = VerticalBlock \<or>
     (\<not> ch \<and> c = StyledIFrameResizerAnchor)"
  by (auto simp: main_region_def occurs_renderBlock)

lemma occurs_event_region:
  "occurs c (event_region props ctx ch s ev) \<longleftrightarrow>
     \<not> isEmpty ev \<and> (c = EventContainer \<or> c = StyledAppViewBlockContainer \<or> c = VerticalBlock)"
  by (auto simp: event_region_def occurs_renderBlock)

lemma component_of_regions:
  "component_of (sidebar_region props ctx ch s sb) = (if s then Some ThemedSidebar else None)"
  "component_of (main_region props ctx ch s m) =
     Some (if ch then ScrollToBottomContainer else StyledAppViewMain)"
  "component_of (event_region props ctx ch s ev) =
     (if \<not> isEmpty ev then Some EventContainer else None)"
  by (simp_all add: sidebar_region_def main_region_def event_region_def)

lemma sample_view:
  "AppView (sample_props types se ee n hide) (sample_ctx w) ov =
     Inr (projr (AppView (sample_props types se ee n hide) (sample_ctx w) ov))"
  by (simp add: AppView_def sample_props_def showSidebar_def)

lemma sample_regions:
  "main (elements (sample_props types se ee n hide)) = Some (sample_block False types)"
  "sidebar (elements (sample_props types se ee n hide)) = Some (sample_block se [])"
  "event (elements (sample_props types se ee n hide)) = Some (sample_block ee [])"
  "AppViewProps.appPages (sample_props types se ee n hide) = Some (replicate n 0)"
  "hideSidebarNav (sample_props types se ee n hide) = hide"
  by (simp_all add: sample_props_def)

lemma sample_block_simps:
  "isEmpty (sample_block e ts) = e"
  "getElements (sample_block e ts) = map (\<lambda>t. \<lparr>elem_type = t\<rparr>) ts"
  "BlockNode.scriptRunId (sample_block e ts) = ''run-7''"
  by (simp_all add: sample_block_def)

text \<open>
  C6.  For every render that returns, the outer container is a
  \<open>StyledAppViewContainer\<close> whose \<^verbatim>\<open>data-layout\<close> attribute is \<^verbatim>\<open>"wide"\<close> when the
  context value \<open>wideMode\<close> is true and \<^verbatim>\<open>"narrow"\<close> otherwise; so it is \<^verbatim>\<open>"wide"\<close> if
  and only if \<open>wideMode\<close> is true.
\<close>

theorem data_layout_reflects_wideMode:
  assumes "AppView props ctx ov = Inr v"
  shows "component_of (tree v) = Some StyledAppViewContainer \<and>
         prop_of (tree v) ''data-layout'' =
           Some (JStr (if wideMode ctx then ''wide'' else ''narrow'')) \<and>
         (prop_of (tree v) ''data-layout'' = Some (JStr ''wide'') \<longleftrightarrow> wideMode ctx) \<and>
         layout v = (if wideMode ctx then ''wide'' else ''narrow'')"
  using assms by (elim AppView_Inr) simp

theorem data_layout_reflects_wideMode_witness:
  "prop_of (tree (projr (AppView (sample_props [] True True 0 False) (sample_ctx False) False)))
     ''data-layout'' = Some (JStr ''narrow'') \<and>
   prop_of (tree (projr (AppView (sample_props [] True True 0 False) (sample_ctx True) False)))
     ''data-layout'' = Some (JStr ''wide'')"
  using data_layout_reflects_wideMode [OF sample_view, of "[]" True True 0 False False False]
    data_layout_reflects_wideMode [OF sample_view, of "[]" True True 0 False True False]
  by (simp add: sample_ctx_def)

text \<open>
  C1, as the code has it.  For every render that returns, the sidebar region
  (\<open>ThemedSidebar\<close>) is rendered if and only if the computed \<open>showSidebar\<close> is true, and
  \<open>showSidebar\<close> is true if and only if the sidebar region of the page tree is non-empty,
  or \<open>hideSidebarNav\<close> is false and more than one page exists, or the
  \<open>showSidebarOverride\<close> state is true.  When \<open>hideSidebarNav\<close> is false and the
  override is false this is the claimed condition: non-empty sidebar region or more than
  one page.
\<close>

theorem sidebar_rendered_iff_showSidebar:
  assumes "AppView props ctx ov = Inr v"
    and "sidebar (elements props) = Some sb"
    and "AppViewProps.appPages props = Some ps"
  shows "(occurs ThemedSidebar (tree v) \<longleftrightarrow> shown v) \<and>
         (shown v \<longleftrightarrow> \<not> isEmpty sb \<or> (\<not> hideSidebarNav props \<and> length ps > 1) \<or> ov) \<and>
         (length (children_of_kind ThemedSidebar (tree v)) = (if shown v then 1 else 0)) \<and>
         (\<not> hideSidebarNav props \<and> \<not> ov \<longrightarrow>
            (occurs ThemedSidebar (tree v) \<longleftrightarrow> \<not> isEmpty sb \<or> length ps > 1))"
proof -
  from assms(1) obtain sb' ev m where
    sb': "sidebar (elements props) = Some sb'"
    and s: "showSidebar (\<not> isEmpty sb') (hideSidebarNav props) (AppViewProps.appPages props) ov =
              Inr (shown v)"
    and t: "tree v =
       RElement StyledAppViewContainer
         [(''className'', JStr ''appview-container''),
          (''data-testid'', JStr ''stAppViewContainer''),
          (''data-layout'', JStr (if wideMode ctx then ''wide'' else ''narrow''))]
         [sidebar_region props ctx (chat v) (shown v) sb',
          main_region props ctx (chat v) (shown v) m,
          event_region props ctx (chat v) (shown v) ev]"
    by (rule AppView_Inr)
  from sb' assms(2) have [simp]: "sb' = sb" by simp
  from s assms(3)
  have sh: "shown v \<longleftrightarrow> \<not> isEmpty sb \<or> (\<not> hideSidebarNav props \<and> length ps > 1) \<or> ov"
    by (auto dest: showSidebar_Inr)
  have oc: "occurs ThemedSidebar (tree v) \<longleftrightarrow> shown v"
    by (simp add: t occurs_sidebar_region occurs_main_region occurs_event_region)
  have len: "length (children_of_kind ThemedSidebar (tree v)) = (if shown v then 1 else 0)"
    by (simp add: t children_of_kind_def component_of_regions)
  from sh oc len show ?thesis by auto
qed

theorem sidebar_rendered_iff_showSidebar_witness:
  "occurs ThemedSidebar
     (tree (projr (AppView (sample_props [] True True 2 False) (sample_ctx False) False))) \<and>
   \<not> occurs ThemedSidebar
     (tree (projr (AppView (sample_props [] True True 1 False) (sample_ctx False) False))) \<and>
   occurs ThemedSidebar
     (tree (projr (AppView (sample_props [] True True 0 True) (sample_ctx False) True)))"
  using
    sidebar_rendered_iff_showSidebar [OF sample_view sample_regions(2) sample_regions(4),
      of "[]" True True 2 False False False]
    sidebar_rendered_iff_showSidebar [OF sample_view sample_regions(2) sample_regions(4),
      of "[]" True True 1 False False False]
    sidebar_rendered_iff_showSidebar [OF sample_view sample_regions(2) sample_regions(4),
      of "[]" True True 0 True False True]
  by (simp add: sample_regions sample_block_simps)

text \<open>
  C1 as stated fails: with an empty sidebar region, two pages, \<open>hideSidebarNav\<close> true and
  the override false, the render returns and the sidebar region is not rendered, although
  more than one page exists.
\<close>

theorem sidebar_rendered_counterexample:
  "\<not> isl (AppView (sample_props [] True True 2 True) (sample_ctx False) False) \<and>
   \<not> (occurs ThemedSidebar
        (tree (projr (AppView (sample_props [] True True 2 True) (sample_ctx False) False)))
      \<longleftrightarrow> (\<not> isEmpty (sample_block True []) \<or> length (replicate 2 (0::nat)) > 1)) \<and>
   sidebar (elements (sample_props [] True True 2 True)) = Some (sample_block True []) \<and>
   AppViewProps.appPages (sample_props [] True True 2 True) = Some (replicate 2 0)"
  by (simp add: AppView_def showSidebar_def sample_props_def sample_block_def
      occurs_sidebar_region occurs_main_region occurs_event_region)

text \<open>
  C3.  For every render that returns, \<open>containsChatInput\<close> is true if and only if some
  element of \<^verbatim>\<open>elements.main.getElements()\<close> has type \<^verbatim>\<open>"chatInput"\<close>; the main region, the
  second child of the container, is a \<open>ScrollToBottomContainer\<close> when it is true and a
  \<open>StyledAppViewMain\<close> otherwise, and the other of the two occurs nowhere in the tree.
\<close>

theorem main_region_follows_containsChatInput:
  assumes "AppView props ctx ov = Inr v"
    and "main (elements props) = Some m"
  shows "(chat v \<longleftrightarrow> (\<exists>e. e \<in> set (getElements m) \<and> elem_type e = ''chatInput'')) \<and>
         component_of (children (tree v) ! 1) =
           Some (if chat v then ScrollToBottomContainer else StyledAppViewMain) \<and>
         (occurs ScrollToBottomContainer (tree v) \<longleftrightarrow> chat v) \<and>
         (occurs StyledAppViewMain (tree v) \<longleftrightarrow> \<not> chat v)"
proof -
  from assms(1) obtain sb ev m' where
    m': "main (elements props) = Some m'"
    and c: "chat v = containsChatInput m'"
    and t: "tree v =
       RElement StyledAppViewContainer
         [(''className'', JStr ''appview-container''),
          (''data-testid'', JStr ''stAppViewContainer''),
          (''data-layout'', JStr (if wideMode ctx then ''wide'' else ''narrow''))]
         [sidebar_region props ctx (chat v) (shown v) sb,
          main_region props ctx (chat v) (shown v) m',
          event_region props ctx (chat v) (shown v) ev]"
    by (rule AppView_Inr)
  from m' assms(2) have [simp]: "m' = m" by simp
  have ch: "chat v \<longleftrightarrow> (\<exists>e. e \<in> set (getElements m) \<and> elem_type e = ''chatInput'')"
    by (simp add: c containsChatInput_def find_None_iff)
  have k: "component_of (children (tree v) ! 1) =
           Some (if chat v then ScrollToBottomContainer else StyledAppViewMain)"
    by (simp add: t component_of_regions)
  have o1: "occurs ScrollToBottomContainer (tree v) \<longleftrightarrow> chat v"
    and o2: "occurs StyledAppViewMain (tree v) \<longleftrightarrow> \<not> chat v"
    by (simp_all add: t occurs_sidebar_region occurs_main_region occurs_event_region)
  from ch k o1 o2 show ?thesis by blast
qed

theorem main_region_follows_containsChatInput_witness:
  "chat (projr (AppView (sample_props [''text'', ''chatInput''] True True 0 False)
           (sample_ctx False) False)) \<and>
   occurs ScrollToBottomContainer
     (tree (projr (AppView (sample_props [''text'', ''chatInput''] True True 0 False)
        (sample_ctx False) False))) \<and>
   \<not> chat (projr (AppView (sample_props [''text''] True True 0 False) (sample_ctx False) False)) \<and>
   occurs StyledAppViewMain
     (tree (projr (AppView (sample_props [''text''] True True 0 False) (sample_ctx False) False)))"
proof -
  have yes: "\<exists>e. e \<in> set (getElements (sample_block False [''text'', ''chatInput''])) \<and>
                 elem_type e = ''chatInput''"
    by (auto simp: sample_block_def)
  have no: "\<not> (\<exists>e. e \<in> set (getElements (sample_block False [''text''])) \<and>
                     elem_type e = ''chatInput'')"
    by (auto simp: sample_block_def)
  show ?thesis
    using
      main_region_follows_containsChatInput [OF sample_view sample_regions(1),
        of "[''text'', ''chatInput'']" True True 0 False False False]
      main_region_follows_containsChatInput [OF sample_view sample_regions(1),
        of "[''text'']" True True 0 False False False]
      yes no
    by blast
qed

text \<open>
  C5.  For every render that returns, the event overlay region (\<open>EventContainer\<close>) is
  rendered if and only if \<^verbatim>\<open>elements.event\<close> is non-empty (\<open>hasEventElements\<close>); when it
  is rendered it is rendered once, its \<open>scriptRunId\<close> prop is \<^verbatim>\<open>elements.event.scriptRunId\<close>
  and its only child is the rendered event block.
\<close>

theorem event_region_iff_hasEventElements:
  assumes "AppView props ctx ov = Inr v"
    and "event (elements props) = Some ev"
  shows "(hasEventElements v \<longleftrightarrow> \<not> isEmpty ev) \<and>
         (occurs EventContainer (tree v) \<longleftrightarrow> hasEventElements v) \<and>
         length (children_of_kind EventContainer (tree v)) =
           (if hasEventElements v then 1 else 0) \<and>
         list_all (\<lambda>x. prop_of x ''scriptRunId'' = Some (JStr (BlockNode.scriptRunId ev)) \<and>
                       children x = [renderBlock props ctx (chat v) (shown v) ev True])
           (children_of_kind EventContainer (tree v))"
proof -
  from assms(1) obtain sb ev' m where
    ev': "event (elements props) = Some ev'"
    and h: "hasEventElements v = (\<not> isEmpty ev')"
    and t: "tree v =
       RElement StyledAppViewContainer
         [(''className'', JStr ''appview-container''),
          (''data-testid'', JStr ''stAppViewContainer''),
          (''data-layout'', JStr (if wideMode ctx then ''wide'' else ''narrow''))]
         [sidebar_region props ctx (chat v) (shown v) sb,
          main_region props ctx (chat v) (shown v) m,
          event_region props ctx (chat v) (shown v) ev']"
    by (rule AppView_Inr)
  from ev' assms(2) have [simp]: "ev' = ev" by simp
  have oc: "occurs EventContainer (tree v) \<longleftrightarrow> hasEventElements v"
    by (simp add: t h occurs_sidebar_region occurs_main_region occurs_event_region)
  have kids: "children_of_kind EventContainer (tree v) =
      (if \<not> isEmpty ev then [event_region props ctx (chat v) (shown v) ev] else [])"
    by (simp add: t children_of_kind_def component_of_regions)
  have len: "length (children_of_kind EventContainer (tree v)) =
      (if hasEventElements v then 1 else 0)"
    by (simp add: kids h)
  have all: "list_all (\<lambda>x. prop_of x ''scriptRunId'' = Some (JStr (BlockNode.scriptRunId ev)) \<and>
                       children x = [renderBlock props ctx (chat v) (shown v) ev True])
           (children_of_kind EventContainer (tree v))"
    by (simp add: kids event_region_def)
  from h oc len all show ?thesis by simp
qed

theorem event_region_iff_hasEventElements_witness:
  "occurs EventContainer
     (tree (projr (AppView (sample_props [] True False 0 False) (sample_ctx False) False))) \<and>
   length (children_of_kind EventContainer
      (tree (projr (AppView (sample_props [] True False 0 False) (sample_ctx False) False)))) = 1 \<and>
   list_all (\<lambda>x. prop_of x ''scriptRunId'' = Some (JStr ''run-7''))
     (children_of_kind EventContainer
        (tree (projr (AppView (sample_props [] True False 0 False) (sample_ctx False) False)))) \<and>
   \<not> occurs EventContainer
     (tree (projr (AppView (sample_props [] True True 0 False) (sample_ctx False) False)))"
  using
    event_region_iff_hasEventElements [OF sample_view sample_regions(3),
      of "[]" True False 0 False False False]
    event_region_iff_hasEventElements [OF sample_view sample_regions(3),
      of "[]" True True 0 False False False]
  by (simp add: sample_block_simps list_all_iff)

text \<open>
  C8.  For every render that returns, the iframe-resizer anchor
  (\<open>StyledIFrameResizerAnchor\<close>) is rendered, as a child of the main region, if and only
  if \<open>containsChatInput\<close> is false; so the scroll-anchored container and the anchor are
  never both in one tree.
\<close>

theorem anchor_iff_no_chat_input:
  assumes "AppView props ctx ov = Inr v"
  shows "(occurs StyledIFrameResizerAnchor (tree v) \<longleftrightarrow> \<not> chat v) \<and>
         (children_of_kind StyledIFrameResizerAnchor (children (tree v) ! 1) \<noteq> [] \<longleftrightarrow>
            \<not> chat v) \<and>
         \<not> (occurs ScrollToBottomContainer (tree v) \<and>
            occurs StyledIFrameResizerAnchor (tree v))"
proof -
  from assms(1) obtain sb ev m where
    t: "tree v =
       RElement StyledAppViewContainer
         [(''className'', JStr ''appview-container''),
          (''data-testid'', JStr ''stAppViewContainer''),
          (''data-layout'', JStr (if wideMode ctx then ''wide'' else ''narrow''))]
         [sidebar_region props ctx (chat v) (shown v) sb,
          main_region props ctx (chat v) (shown v) m,
          event_region props ctx (chat v) (shown v) ev]"
    by (rule AppView_Inr)
  have o1: "occurs StyledIFrameResizerAnchor (tree v) \<longleftrightarrow> \<not> chat v"
    and o2: "occurs ScrollToBottomContainer (tree v) \<longleftrightarrow> chat v"
    by (simp_all add: t occurs_sidebar_region occurs_main_region occurs_event_region)
  have k: "children_of_kind StyledIFrameResizerAnchor (children (tree v) ! 1) \<noteq> [] \<longleftrightarrow>
            \<not> chat v"
    by (simp add: t children_of_kind_def main_region_def renderBlock_def)
  from o1 o2 k show ?thesis by blast
qed

theorem anchor_iff_no_chat_input_witness:
  "occurs StyledIFrameResizerAnchor
     (tree (projr (AppView (sample_props [''text''] True True 0 False) (sample_ctx False) False))) \<and>
   \<not> occurs StyledIFrameResizerAnchor
     (tree (projr (AppView (sample_props [''chatInput''] True True 0 False)
        (sample_ctx False) False)))"
proof -
  have c: "chat (projr (AppView (sample_props ts True True 0 False) (sample_ctx False) False)) =
           (find (\<lambda>e. elem_type e = ''chatInput'') (getElements (sample_block False ts)) \<noteq> None)"
    for ts
    by (simp add: AppView_def sample_props_def showSidebar_def containsChatInput_def)
  show ?thesis
    using
      anchor_iff_no_chat_input [OF sample_view, of "[''text'']" True True 0 False False False]
      anchor_iff_no_chat_input [OF sample_view, of "[''chatInput'']" True True 0 False False False]
    by (simp add: c sample_block_def)
qed


section \<open>The default application URL\<close>







section \<open>Render passes keep the invariant\<close>

lemma older_mono: "older n f \<Longrightarrow> n \<le> m \<Longrightarrow> older m f"
  by (cases f) auto

lemma filter_not_remove1:
  "P x \<Longrightarrow> filter (\<lambda>y. \<not> P y) (remove1 x xs) = filter (\<lambda>y. \<not> P y) xs"
  by (induction xs) auto

lemma commit_Inr:
  "commit props ctx lib hk p = Inr (v, hk', p') \<longleftrightarrow>
     AppView props ctx (showSidebarOverride hk) = Inr v \<and>
     run_effects props lib v
       (useCallback_handler (hasSidebarElements v) (showSidebarOverride hk) hk (next_id p))
       hk (p\<lparr>next_id := Suc (next_id p)\<rparr>) = Inr (hk', p')"
  by (auto simp: commit_def split: sum.splits)

text \<open>The outcome of the effects, in terms of the slots they find.\<close>

lemma run_effects_subscribed:
  assumes s1: "hashchange_effect hk = Some (d1, RemoveEventListener ty l cp)"
    and s3: "handler_effect hk = Some ((h0, a0, r0), RemoveScriptFinishedHandler r0 h0)"
    and r: "run_effects props lib v handler hk p = Inr (hk', p')"
    and n: "(''hashchange'', Listener (next_id p) (sendMessageToHost props), False)
              \<notin> set (listeners p)"
  shows "hk' =
           \<lparr> showSidebarOverride =
               (if override_effect hk \<noteq> Some (shown v, hideSidebarNav props, showSidebarOverride hk)
                then override_setup (shown v) (hideSidebarNav props) (showSidebarOverride hk)
                else showSidebarOverride hk),
             hashchange_effect =
               (if d1 \<noteq> sendMessageToHost props
                then Some (sendMessageToHost props,
                       RemoveEventListener ''hashchange''
                         (Listener (next_id p) (sendMessageToHost props)) False)
                else hashchange_effect hk),
             override_effect = Some (shown v, hideSidebarNav props, showSidebarOverride hk),
             scriptFinishedHandler = Some ((hasSidebarElements v, showSidebarOverride hk), handler),
             handler_effect =
               Some ((handler, addScriptFinishedHandler lib, removeScriptFinishedHandler lib),
                     RemoveScriptFinishedHandler (removeScriptFinishedHandler lib) handler) \<rparr> \<and>
         p' = p\<lparr> listeners :=
                   (if d1 \<noteq> sendMessageToHost props
                    then remove1 (ty, l, cp) (listeners p) @
                         [(''hashchange'', Listener (next_id p) (sendMessageToHost props), False)]
                    else listeners p),
                 scriptFinishedHandlers :=
                   (if (h0, a0, r0) \<noteq>
                       (handler, addScriptFinishedHandler lib, removeScriptFinishedHandler lib)
                    then remove1 h0 (scriptFinishedHandlers p) @ [handler]
                    else scriptFinishedHandlers p),
                 next_id := (if d1 \<noteq> sendMessageToHost props then Suc (next_id p) else next_id p) \<rparr> \<and>
         (addScriptFinishedHandler lib \<noteq> None \<or> a0 = addScriptFinishedHandler lib)"
proof -
  have o: "(case override_effect hk of None \<Rightarrow> True
            | Some d \<Rightarrow> d \<noteq> (shown v, hideSidebarNav props, showSidebarOverride hk)) =
           (override_effect hk \<noteq> Some (shown v, hideSidebarNav props, showSidebarOverride hk))"
    by (cases "override_effect hk") auto
  have n': "(''hashchange'', Listener (next_id p) (sendMessageToHost props), False)
              \<notin> set (remove1 (ty, l, cp) (listeners p))"
    using n by (auto dest: notin_set_remove1)
  note defs = run_effects_def Let_def deps_changed_def cleanup_slot_def s1 s3 o
    hashchange_setup_def handler_setup_def removeEventListener_def addEventListener_def
    add_handler_def remove_handler_def
  show ?thesis
  proof (cases "d1 = sendMessageToHost props")
    case same1: True
    show ?thesis
    proof (cases "(h0, a0, r0) =
        (handler, addScriptFinishedHandler lib, removeScriptFinishedHandler lib)")
      case True
      with same1 r show ?thesis by (auto simp: defs)
    next
      case False
      with same1 r obtain rf af where "r0 = Some rf" "addScriptFinishedHandler lib = Some af"
        by (cases r0; cases "addScriptFinishedHandler lib") (simp_all add: defs)
      with False same1 r show ?thesis by (auto simp: defs)
    qed
  next
    case diff1: False
    show ?thesis
    proof (cases "(h0, a0, r0) =
        (handler, addScriptFinishedHandler lib, removeScriptFinishedHandler lib)")
      case True
      with diff1 r n' show ?thesis by (auto simp: defs)
    next
      case False
      with diff1 r obtain rf af where "r0 = Some rf" "addScriptFinishedHandler lib = Some af"
        by (cases r0; cases "addScriptFinishedHandler lib") (simp_all add: defs)
      with False diff1 r n' show ?thesis by (auto simp: defs)
    qed
  qed
qed


lemma run_effects_mount:
  assumes s1: "hashchange_effect hk = None"
    and s3: "handler_effect hk = None"
    and r: "run_effects props lib v handler hk p = Inr (hk', p')"
    and n: "(''hashchange'', Listener (next_id p) (sendMessageToHost props), False)
              \<notin> set (listeners p)"
  shows "hk' =
           \<lparr> showSidebarOverride =
               (if override_effect hk \<noteq> Some (shown v, hideSidebarNav props, showSidebarOverride hk)
                then override_setup (shown v) (hideSidebarNav props) (showSidebarOverride hk)
                else showSidebarOverride hk),
             hashchange_effect =
               Some (sendMessageToHost props,
                 RemoveEventListener ''hashchange''
                   (Listener (next_id p) (sendMessageToHost props)) False),
             override_effect = Some (shown v, hideSidebarNav props, showSidebarOverride hk),
             scriptFinishedHandler = Some ((hasSidebarElements v, showSidebarOverride hk), handler),
             handler_effect =
               Some ((handler, addScriptFinishedHandler lib, removeScriptFinishedHandler lib),
                     RemoveScriptFinishedHandler (removeScriptFinishedHandler lib) handler) \<rparr> \<and>
         p' = p\<lparr> listeners := listeners p @
                   [(''hashchange'', Listener (next_id p) (sendMessageToHost props), False)],
                 scriptFinishedHandlers := scriptFinishedHandlers p @ [handler],
                 next_id := Suc (next_id p) \<rparr> \<and>
         addScriptFinishedHandler lib \<noteq> None"
proof -
  have o: "(case override_effect hk of None \<Rightarrow> True
            | Some d \<Rightarrow> d \<noteq> (shown v, hideSidebarNav props, showSidebarOverride hk)) =
           (override_effect hk \<noteq> Some (shown v, hideSidebarNav props, showSidebarOverride hk))"
    by (cases "override_effect hk") auto
  note defs = run_effects_def Let_def deps_changed_def cleanup_slot_def s1 s3 o
    hashchange_setup_def handler_setup_def removeEventListener_def addEventListener_def
    add_handler_def remove_handler_def
  from r obtain af where "addScriptFinishedHandler lib = Some af"
    by (cases "addScriptFinishedHandler lib") (simp_all add: defs)
  with r n show ?thesis by (auto simp: defs)
qed

lemma fresh_listener:
  "fresh_page p \<Longrightarrow> next_id p \<le> n \<Longrightarrow> (ty, Listener n s, c) \<notin> set (listeners p)"
  by (auto simp: fresh_page_def list_all_iff)

lemma fresh_pageI:
  assumes "fresh_page p" "next_id p \<le> next_id p'"
    and "\<And>ty f c. (ty, f, c) \<in> set (listeners p') \<Longrightarrow>
           (ty, f, c) \<in> set (listeners p) \<or> older (next_id p') f"
    and "\<And>f. f \<in> set (scriptFinishedHandlers p') \<Longrightarrow>
           f \<in> set (scriptFinishedHandlers p) \<or> older (next_id p') f"
  shows "fresh_page p'"
  using assms unfolding fresh_page_def list_all_iff
  by (fastforce intro: older_mono)

lemma fresh_handler:
  "fresh_page p \<Longrightarrow> f \<in> set (scriptFinishedHandlers p) \<Longrightarrow> older (next_id p) f"
  by (auto simp: fresh_page_def list_all_iff)

lemma in_filter_singleton:
  assumes "filter P xs = [x]"
  shows "x \<in> set xs"
proof -
  from assms have "x \<in> set (filter P xs)" by simp
  then show ?thesis by simp
qed

text \<open>The state that the second effect leaves.\<close>

lemma override_after:
  assumes "override_effect hk = None \<or>
           (\<exists>s h r. override_effect hk = Some (s, h, r) \<and> (s \<and> h \<and> \<not> r \<longrightarrow> showSidebarOverride hk))"
  shows "(if override_effect hk \<noteq> Some (s', h', showSidebarOverride hk)
          then override_setup s' h' (showSidebarOverride hk)
          else showSidebarOverride hk) = (showSidebarOverride hk \<or> (s' \<and> h'))"
  using assms by (auto simp: override_setup_def)


text \<open>A render pass from the state that an earlier pass left.\<close>

lemma commit_from_inv:
  assumes inv: "hooks_inv props0 ctx0 lib0 r0 hk p"
    and c: "commit props ctx lib hk p = Inr (v, hk', p')"
  shows "AppView props ctx (showSidebarOverride hk) = Inr v \<and>
         hooks_inv props ctx lib (showSidebarOverride hk) hk' p' \<and>
         same_outside p p' \<and>
         showSidebarOverride hk' = (showSidebarOverride hk \<or> (shown v \<and> hideSidebarNav props))"
proof -
  from inv obtain i j v0 where
    v0: "AppView props0 ctx0 r0 = Inr v0"
    and s1: "hashchange_effect hk =
          Some (sendMessageToHost props0,
                RemoveEventListener ''hashchange'' (Listener i (sendMessageToHost props0)) False)"
    and l1: "filter own_listener (listeners p) =
          [(''hashchange'', Listener i (sendMessageToHost props0), False)]"
    and s2: "override_effect hk = Some (shown v0, hideSidebarNav props0, r0)"
    and m: "scriptFinishedHandler hk =
          Some ((hasSidebarElements v0, r0), Handler j (hasSidebarElements v0) r0)"
    and s3: "handler_effect hk =
          Some ((Handler j (hasSidebarElements v0) r0,
                 addScriptFinishedHandler lib0, removeScriptFinishedHandler lib0),
                RemoveScriptFinishedHandler (removeScriptFinishedHandler lib0)
                  (Handler j (hasSidebarElements v0) r0))"
    and a0: "addScriptFinishedHandler lib0 \<noteq> None"
    and l3: "filter own (scriptFinishedHandlers p) = [Handler j (hasSidebarElements v0) r0]"
    and o: "shown v0 \<and> hideSidebarNav props0 \<and> \<not> r0 \<longrightarrow> showSidebarOverride hk"
    and f: "fresh_page p"
    unfolding hooks_inv_def by blast
  define r where "r = showSidebarOverride hk"
  define handler where
    "handler = useCallback_handler (hasSidebarElements v) r hk (next_id p)"
  define p0 where "p0 = p\<lparr>next_id := Suc (next_id p)\<rparr>"
  define send where "send = sendMessageToHost props"
  define h0 where "h0 = Handler j (hasSidebarElements v0) r0"
  from c have v: "AppView props ctx r = Inr v"
    and e: "run_effects props lib v handler hk p0 = Inr (hk', p')"
    by (simp_all add: commit_Inr r_def handler_def p0_def)
  have n: "(''hashchange'', Listener (next_id p0) (sendMessageToHost props), False)
             \<notin> set (listeners p0)"
    using fresh_listener [OF f, of "Suc (next_id p)"] by (simp add: p0_def)
  note out = run_effects_subscribed [OF s1 s3 e n]
  have "\<exists>j'. handler = Handler j' (hasSidebarElements v) r \<and>
          (j' = j \<and> handler = h0 \<or> j' = next_id p)"
    by (cases "(hasSidebarElements v0, r0) = (hasSidebarElements v, r)")
      (auto simp: handler_def useCallback_handler_def m h0_def)
  then obtain j' where h: "handler = Handler j' (hasSidebarElements v) r"
    and j': "j' = j \<and> handler = h0 \<or> j' = next_id p"
    by blast
  have jold: "older (next_id p) h0"
    using fresh_handler [OF f in_filter_singleton [OF l3]] by (simp add: h0_def)
  have hold: "older (Suc (next_id p)) handler"
    using j' jold h by (auto simp: h0_def)
  from out have hk': "hashchange_effect hk' =
      (if sendMessageToHost props0 \<noteq> send
       then Some (send, RemoveEventListener ''hashchange'' (Listener (Suc (next_id p)) send) False)
       else hashchange_effect hk)"
    and ov': "override_effect hk' = Some (shown v, hideSidebarNav props, r)"
    and m': "scriptFinishedHandler hk' = Some ((hasSidebarElements v, r), handler)"
    and s3': "handler_effect hk' =
       Some ((handler, addScriptFinishedHandler lib, removeScriptFinishedHandler lib),
             RemoveScriptFinishedHandler (removeScriptFinishedHandler lib) handler)"
    and st': "showSidebarOverride hk' =
       (if override_effect hk \<noteq> Some (shown v, hideSidebarNav props, r)
        then override_setup (shown v) (hideSidebarNav props) r else r)"
    by (simp_all add: p0_def send_def r_def)
  from out have ls': "listeners p' =
      (if sendMessageToHost props0 \<noteq> send
       then remove1 (''hashchange'', Listener i (sendMessageToHost props0), False) (listeners p) @
            [(''hashchange'', Listener (Suc (next_id p)) send, False)]
       else listeners p)"
    and hs': "scriptFinishedHandlers p' =
      (if (h0, addScriptFinishedHandler lib0, removeScriptFinishedHandler lib0) \<noteq>
          (handler, addScriptFinishedHandler lib, removeScriptFinishedHandler lib)
       then remove1 h0 (scriptFinishedHandlers p) @ [handler]
       else scriptFinishedHandlers p)"
    and id': "next_id p' = (if sendMessageToHost props0 \<noteq> send then Suc (Suc (next_id p))
                            else Suc (next_id p))"
    and rest: "outbox p' = outbox p" "uncaught p' = uncaught p" "location_hash p' = location_hash p"
    by (simp_all add: p0_def send_def h0_def)
  from out a0 have add: "addScriptFinishedHandler lib \<noteq> None"
    by auto
  have own_l: "\<exists>i'. hashchange_effect hk' =
        Some (send, RemoveEventListener ''hashchange'' (Listener i' send) False) \<and>
      filter own_listener (listeners p') = [(''hashchange'', Listener i' send, False)]"
    using s1 l1 by (auto simp: hk' ls' filter_remove1)
  have own_h: "filter own (scriptFinishedHandlers p') = [handler]"
    using l3 h by (auto simp: hs' filter_remove1 h0_def)
  have ext: "filter (\<lambda>l. \<not> own_listener l) (listeners p') =
             filter (\<lambda>l. \<not> own_listener l) (listeners p)"
    "filter (\<lambda>f. \<not> own f) (scriptFinishedHandlers p') =
     filter (\<lambda>f. \<not> own f) (scriptFinishedHandlers p)"
    using h by (auto simp: ls' hs' filter_not_remove1 h0_def)
  have fresh': "fresh_page p'"
  proof (rule fresh_pageI [OF f])
    show "next_id p \<le> next_id p'" by (simp add: id')
  next
    fix ty g cp assume "(ty, g, cp) \<in> set (listeners p')"
    then show "(ty, g, cp) \<in> set (listeners p) \<or> older (next_id p') g"
      by (auto simp: ls' id' split: if_splits dest: set_remove1_subset [THEN subsetD])
  next
    fix g assume "g \<in> set (scriptFinishedHandlers p')"
    then show "g \<in> set (scriptFinishedHandlers p) \<or> older (next_id p') g"
      using hold
      by (auto simp: hs' id' split: if_splits dest: set_remove1_subset [THEN subsetD]
          intro: older_mono)
  qed
  have st: "showSidebarOverride hk' = (r \<or> (shown v \<and> hideSidebarNav props))"
    unfolding st' r_def
    by (rule override_after) (use s2 o in auto)
  have inv': "hooks_inv props ctx lib r hk' p'"
    unfolding hooks_inv_def
    using v own_l ov' m' s3' add own_h st fresh' h send_def by auto
  have "same_outside p p'"
    by (simp add: same_outside_def rest ext)
  with v inv' st show ?thesis by (simp add: r_def)
qed


text \<open>The first render pass of a component that mounts.\<close>

lemma commit_from_initial:
  assumes u: "unsubscribed p" and f: "fresh_page p"
    and c: "commit props ctx lib initial_hooks p = Inr (v, hk', p')"
  shows "AppView props ctx False = Inr v \<and>
         hooks_inv props ctx lib False hk' p' \<and>
         same_outside p p' \<and>
         showSidebarOverride hk' = (shown v \<and> hideSidebarNav props)"
proof -
  define handler where
    "handler = useCallback_handler (hasSidebarElements v) False initial_hooks (next_id p)"
  define p0 where "p0 = p\<lparr>next_id := Suc (next_id p)\<rparr>"
  define send where "send = sendMessageToHost props"
  have i: "showSidebarOverride initial_hooks = False" "hashchange_effect initial_hooks = None"
    "handler_effect initial_hooks = None" "override_effect initial_hooks = None"
    "scriptFinishedHandler initial_hooks = None"
    by (simp_all add: initial_hooks_def)
  from c have v: "AppView props ctx False = Inr v"
    and e: "run_effects props lib v handler initial_hooks p0 = Inr (hk', p')"
    by (simp_all add: commit_Inr handler_def p0_def i)
  have n: "(''hashchange'', Listener (next_id p0) (sendMessageToHost props), False)
             \<notin> set (listeners p0)"
    using fresh_listener [OF f, of "Suc (next_id p)"] by (simp add: p0_def)
  note out = run_effects_mount [OF i(2) i(3) e n]
  have h: "handler = Handler (next_id p) (hasSidebarElements v) False"
    by (simp add: handler_def useCallback_handler_def i)
  from out have hk': "hashchange_effect hk' =
       Some (send, RemoveEventListener ''hashchange'' (Listener (Suc (next_id p)) send) False)"
    and ov': "override_effect hk' = Some (shown v, hideSidebarNav props, False)"
    and m': "scriptFinishedHandler hk' = Some ((hasSidebarElements v, False), handler)"
    and s3': "handler_effect hk' =
       Some ((handler, addScriptFinishedHandler lib, removeScriptFinishedHandler lib),
             RemoveScriptFinishedHandler (removeScriptFinishedHandler lib) handler)"
    and st: "showSidebarOverride hk' = (shown v \<and> hideSidebarNav props)"
    and add: "addScriptFinishedHandler lib \<noteq> None"
    by (simp_all add: p0_def send_def i override_setup_def)
  from out have ls': "listeners p' =
       listeners p @ [(''hashchange'', Listener (Suc (next_id p)) send, False)]"
    and hs': "scriptFinishedHandlers p' = scriptFinishedHandlers p @ [handler]"
    and id': "next_id p' = Suc (Suc (next_id p))"
    and rest: "outbox p' = outbox p" "uncaught p' = uncaught p" "location_hash p' = location_hash p"
    by (simp_all add: p0_def send_def)
  have own_l: "filter own_listener (listeners p') =
       [(''hashchange'', Listener (Suc (next_id p)) send, False)]"
    and own_h: "filter own (scriptFinishedHandlers p') = [handler]"
    using u by (simp_all add: ls' hs' unsubscribed_def h)
  have ext: "filter (\<lambda>l. \<not> own_listener l) (listeners p') =
             filter (\<lambda>l. \<not> own_listener l) (listeners p)"
    "filter (\<lambda>f. \<not> own f) (scriptFinishedHandlers p') =
     filter (\<lambda>f. \<not> own f) (scriptFinishedHandlers p)"
    by (simp_all add: ls' hs' h)
  have fresh': "fresh_page p'"
  proof (rule fresh_pageI [OF f])
    show "next_id p \<le> next_id p'" by (simp add: id')
  next
    fix ty g cp assume "(ty, g, cp) \<in> set (listeners p')"
    then show "(ty, g, cp) \<in> set (listeners p) \<or> older (next_id p') g"
      by (auto simp: ls' id')
  next
    fix g assume "g \<in> set (scriptFinishedHandlers p')"
    then show "g \<in> set (scriptFinishedHandlers p) \<or> older (next_id p') g"
      by (auto simp: hs' id' h)
  qed
  have inv': "hooks_inv props ctx lib False hk' p'"
    unfolding hooks_inv_def
    using v hk' own_l ov' m' s3' add own_h st fresh' h send_def by auto
  have "same_outside p p'"
    by (simp add: same_outside_def rest ext)
  with v inv' st show ?thesis by simp
qed

lemma hooks_pre_inv: "hooks_inv props ctx lib r hk p \<Longrightarrow> hooks_pre hk p"
  unfolding hooks_pre_def by blast

lemma commit_pre:
  assumes "hooks_pre hk p" and "commit props ctx lib hk p = Inr (v, hk', p')"
  shows "AppView props ctx (showSidebarOverride hk) = Inr v \<and>
         hooks_inv props ctx lib (showSidebarOverride hk) hk' p' \<and>
         same_outside p p' \<and>
         showSidebarOverride hk' = (showSidebarOverride hk \<or> (shown v \<and> hideSidebarNav props))"
  using assms(1) unfolding hooks_pre_def
proof (elim disjE conjE exE)
  assume "hk = initial_hooks" "unsubscribed p" "fresh_page p"
  with commit_from_initial [of p props ctx lib v hk' p'] assms(2)
  show ?thesis by (simp add: initial_hooks_def)
next
  fix props0 ctx0 lib0 r0
  assume "hooks_inv props0 ctx0 lib0 r0 hk p"
  from commit_from_inv [OF this assms(2)] show ?thesis .
qed

lemma same_outside_refl: "same_outside p p"
  by (simp add: same_outside_def)

lemma same_outside_trans: "same_outside p q \<Longrightarrow> same_outside q r \<Longrightarrow> same_outside p r"
  by (simp add: same_outside_def)

text \<open>Rendering until the state settles.\<close>

lemma settle_inv:
  assumes "hooks_pre hk p" and "settle props ctx lib hk p = Inr (v, hk', p')"
  shows "hooks_inv props ctx lib (showSidebarOverride hk') hk' p' \<and>
         same_outside p p' \<and>
         AppView props ctx (showSidebarOverride hk') = Inr v \<and>
         (\<exists>v1. AppView props ctx (showSidebarOverride hk) = Inr v1 \<and>
               showSidebarOverride hk' =
                 (showSidebarOverride hk \<or> (shown v1 \<and> hideSidebarNav props)))"
  using assms
proof (induction props ctx lib hk p rule: settle.induct)
  case (1 props ctx lib hk p)
  from "1.prems"(2) obtain v1 hk1 p1 where
    c: "commit props ctx lib hk p = Inr (v1, hk1, p1)"
    by (subst (asm) settle.simps) (auto split: sum.splits)
  note c1 = commit_pre [OF "1.prems"(1) c]
  show ?case
  proof (cases "showSidebarOverride hk1 = showSidebarOverride hk")
    case True
    with "1.prems"(2) c have "v = v1" "hk' = hk1" "p' = p1"
      by (subst (asm) settle.simps, simp)+
    with c1 True show ?thesis by auto
  next
    case False
    with "1.prems"(2) c have s: "settle props ctx lib hk1 p1 = Inr (v, hk', p')"
      by (subst (asm) settle.simps) simp
    from c1 have pre1: "hooks_pre hk1 p1" by (blast intro: hooks_pre_inv)
    from "1.IH" [OF c refl refl False pre1 s] c1 False
    show ?thesis by (auto intro: same_outside_trans)
  qed
qed

section \<open>Events keep the invariant\<close>

lemma hooks_inv_listener:
  assumes "hooks_inv props ctx lib r hk p"
  shows "\<exists>i. hashchange_effect hk =
          Some (sendMessageToHost props,
                RemoveEventListener ''hashchange'' (Listener i (sendMessageToHost props)) False) \<and>
        filter own_listener (listeners p) =
          [(''hashchange'', Listener i (sendMessageToHost props), False)]"
  using assms unfolding hooks_inv_def by (elim exE conjE) (intro exI conjI, assumption+)

lemma hooks_inv_handler:
  assumes "hooks_inv props ctx lib r hk p"
  shows "\<exists>j v. AppView props ctx r = Inr v \<and>
        scriptFinishedHandler hk =
          Some ((hasSidebarElements v, r), Handler j (hasSidebarElements v) r) \<and>
        handler_effect hk =
          Some ((Handler j (hasSidebarElements v) r,
                 addScriptFinishedHandler lib, removeScriptFinishedHandler lib),
                RemoveScriptFinishedHandler (removeScriptFinishedHandler lib)
                  (Handler j (hasSidebarElements v) r)) \<and>
        filter own (scriptFinishedHandlers p) = [Handler j (hasSidebarElements v) r]"
  using assms unfolding hooks_inv_def by (elim exE conjE) (intro exI conjI, assumption+)

lemma hooks_inv_override:
  assumes "hooks_inv props ctx lib r hk p"
  shows "\<exists>v. AppView props ctx r = Inr v \<and>
        override_effect hk = Some (shown v, hideSidebarNav props, r) \<and>
        (shown v \<and> hideSidebarNav props \<and> \<not> r \<longrightarrow> showSidebarOverride hk)"
  using assms unfolding hooks_inv_def by (elim exE conjE) (intro exI conjI, assumption+)

lemma hooks_inv_fresh:
  "hooks_inv props ctx lib r hk p \<Longrightarrow> fresh_page p \<and> addScriptFinishedHandler lib \<noteq> None"
  unfolding hooks_inv_def by (elim exE conjE) (intro conjI, assumption+)

lemma hooks_inv_page:
  assumes "hooks_inv props ctx lib r hk p"
    and "listeners p' = listeners p" "scriptFinishedHandlers p' = scriptFinishedHandlers p"
    "next_id p' = next_id p"
  shows "hooks_inv props ctx lib r hk p'"
  using assms(1) by (simp add: hooks_inv_def fresh_page_def assms(2-))

lemma hooks_inv_state:
  "hooks_inv props ctx lib True hk p \<Longrightarrow>
   hooks_inv props ctx lib True (hk\<lparr>showSidebarOverride := st\<rparr>) p"
  unfolding hooks_inv_def by simp

text \<open>Functions of other code do nothing to the modelled state.\<close>

lemma call_listener_external: "\<not> own f \<Longrightarrow> call_listener f p = Inr p"
  by (cases f) simp_all

lemma dispatchEvent_own:
  "dispatchEvent ty ls p = dispatchEvent ty (filter own_listener ls) p"
  by (induction ls arbitrary: p) (auto simp: call_listener_external)

lemma call_handler_external: "\<not> own f \<Longrightarrow> call_handler f st = st"
  by (cases f) simp_all

lemma fold_call_handler_own:
  "fold call_handler hs st = fold call_handler (filter own hs) st"
  by (induction hs arbitrary: st) (auto simp: call_handler_external)

text \<open>The dispatch of \<^verbatim>\<open>hashchange\<close> while AppView is mounted.\<close>

lemma dispatch_mounted:
  assumes "hooks_inv props ctx lib r hk p"
  shows "dispatchEvent ''hashchange'' (listeners p) (p\<lparr>location_hash := h\<rparr>) =
           (case sendMessageToHost props of
              None \<Rightarrow> p\<lparr>location_hash := h, uncaught := uncaught p @ [TypeError]\<rparr>
            | Some send \<Rightarrow>
                p\<lparr>location_hash := h,
                  outbox := outbox p @ [(send, \<lparr>msg_type = ''UPDATE_HASH'', hash = h\<rparr>)]\<rparr>)"
proof -
  from hooks_inv_listener [OF assms] obtain i where
    "filter own_listener (listeners p) =
       [(''hashchange'', Listener i (sendMessageToHost props), False)]"
    by blast
  then show ?thesis
    by (subst dispatchEvent_own) (simp split: option.splits)
qed

lemma dispatch_unmounted:
  assumes "unsubscribed p"
  shows "dispatchEvent ty (listeners p) q = q"
  using assms by (subst dispatchEvent_own) (simp add: unsubscribed_def)

text \<open>The script-finished handlers while AppView is mounted.\<close>

lemma handlers_mounted:
  assumes "hooks_inv props ctx lib r hk p"
  obtains v where "AppView props ctx r = Inr v"
    and "fold call_handler (scriptFinishedHandlers p) st =
           (if \<not> hasSidebarElements v \<and> r then False else st)"
proof -
  from hooks_inv_handler [OF assms] obtain j v where v: "AppView props ctx r = Inr v"
    and "filter own (scriptFinishedHandlers p) = [Handler j (hasSidebarElements v) r]"
    by blast
  then have "fold call_handler (scriptFinishedHandlers p) st =
           (if \<not> hasSidebarElements v \<and> r then False else st)"
    by (subst fold_call_handler_own) simp
  with v show thesis by (rule that)
qed

text \<open>Unmounting.\<close>

lemma unmount_inv:
  assumes inv: "hooks_inv props ctx lib r hk p"
    and u: "unmount hk p = Inr p'"
  shows "unsubscribed p' \<and> fresh_page p' \<and> same_outside p p' \<and>
         removeScriptFinishedHandler lib \<noteq> None"
proof -
  from hooks_inv_listener [OF inv] obtain i where
    s1: "hashchange_effect hk =
          Some (sendMessageToHost props,
                RemoveEventListener ''hashchange'' (Listener i (sendMessageToHost props)) False)"
    and l1: "filter own_listener (listeners p) =
          [(''hashchange'', Listener i (sendMessageToHost props), False)]"
    by blast
  from hooks_inv_handler [OF inv] obtain j and v :: view where
    s3: "handler_effect hk =
          Some ((Handler j (hasSidebarElements v) r,
                 addScriptFinishedHandler lib, removeScriptFinishedHandler lib),
                RemoveScriptFinishedHandler (removeScriptFinishedHandler lib)
                  (Handler j (hasSidebarElements v) r))"
    and l3: "filter own (scriptFinishedHandlers p) = [Handler j (hasSidebarElements v) r]"
    by blast
  from hooks_inv_fresh [OF inv] have f: "fresh_page p" by simp
  from u obtain rf where rf: "removeScriptFinishedHandler lib = Some rf"
    by (cases "removeScriptFinishedHandler lib")
      (simp_all add: unmount_def cleanup_slot_def s1 s3)
  with u have p': "p' = p\<lparr>listeners :=
        remove1 (''hashchange'', Listener i (sendMessageToHost props), False) (listeners p),
      scriptFinishedHandlers := remove1 (Handler j (hasSidebarElements v) r)
        (scriptFinishedHandlers p)\<rparr>"
    by (simp add: unmount_def cleanup_slot_def s1 s3 removeEventListener_def remove_handler_def)
  have "unsubscribed p'"
    by (simp add: unsubscribed_def p' filter_remove1 l1 l3)
  moreover have "fresh_page p'"
    by (rule fresh_pageI [OF f])
      (auto simp: p' dest: set_remove1_subset [THEN subsetD])
  moreover have "same_outside p p'"
    by (simp add: same_outside_def p' filter_not_remove1)
  ultimately show ?thesis using rf by simp
qed

text \<open>Rendering, from the hooks of a component about to mount or already mounted.\<close>

lemma render_inv:
  assumes "hooks_pre hk p" and "render props ctx lib hk p = Inr a"
  obtains hk' p' v1 where
    "a = (Some \<lparr>fiber_props = props, fiber_ctx = ctx, fiber_lib = lib, fiber_hooks = hk'\<rparr>, p')"
    "hooks_inv props ctx lib (showSidebarOverride hk') hk' p'"
    "same_outside p p'"
    "AppView props ctx (showSidebarOverride hk) = Inr v1"
    "showSidebarOverride hk' = (showSidebarOverride hk \<or> (shown v1 \<and> hideSidebarNav props))"
proof -
  from assms(2) obtain v hk' p' where s: "settle props ctx lib hk p = Inr (v, hk', p')"
    and a: "a = (Some \<lparr>fiber_props = props, fiber_ctx = ctx, fiber_lib = lib,
                        fiber_hooks = hk'\<rparr>, p')"
    by (auto simp: render_def split: sum.splits)
  note si = settle_inv [OF assms(1) s]
  from si have i: "hooks_inv props ctx lib (showSidebarOverride hk') hk' p'"
    by (rule conjunct1)
  from si have o: "same_outside p p'"
    by (rule conjunct2 [THEN conjunct1])
  from si have "\<exists>v1. AppView props ctx (showSidebarOverride hk) = Inr v1 \<and>
      showSidebarOverride hk' = (showSidebarOverride hk \<or> (shown v1 \<and> hideSidebarNav props))"
    by (rule conjunct2 [THEN conjunct2, THEN conjunct2])
  then obtain v1 where c: "AppView props ctx (showSidebarOverride hk) = Inr v1 \<and>
      showSidebarOverride hk' = (showSidebarOverride hk \<or> (shown v1 \<and> hideSidebarNav props))" ..
  from c have v1: "AppView props ctx (showSidebarOverride hk) = Inr v1"
    by (rule conjunct1)
  from c have st: "showSidebarOverride hk' =
      (showSidebarOverride hk \<or> (shown v1 \<and> hideSidebarNav props))"
    by (rule conjunct2)
  from a i o v1 st show thesis by (rule that)
qed

lemma hooks_pre_initial: "unsubscribed p \<Longrightarrow> fresh_page p \<Longrightarrow> hooks_pre initial_hooks p"
  by (simp add: hooks_pre_def)


lemma render_app_inv:
  assumes "hooks_pre hk p" and "render props ctx lib hk p = Inr a"
  shows "app_inv a"
  using assms(1) assms(2)
proof (rule render_inv)
  fix hk' p' v1
  assume "a = (Some \<lparr>fiber_props = props, fiber_ctx = ctx, fiber_lib = lib,
                      fiber_hooks = hk'\<rparr>, p')"
    and "hooks_inv props ctx lib (showSidebarOverride hk') hk' p'"
  then show "app_inv a" by simp
qed

lemma hashchange_app_inv:
  assumes "app_inv (m, p)"
  shows "app_inv (m, dispatchEvent ''hashchange'' (listeners p) (p\<lparr>location_hash := h\<rparr>))"
proof (cases m)
  case None
  with assms have "unsubscribed p" "fresh_page p" by simp_all
  then show ?thesis
    by (simp add: None dispatch_unmounted unsubscribed_def fresh_page_def)
next
  case (Some fb)
  with assms have inv: "hooks_inv (fiber_props fb) (fiber_ctx fb) (fiber_lib fb)
               (showSidebarOverride (fiber_hooks fb)) (fiber_hooks fb) p"
    by simp
  show ?thesis
    unfolding Some app_inv.simps dispatch_mounted [OF inv]
    by (cases "sendMessageToHost (fiber_props fb)")
      (simp_all add: hooks_inv_page [OF inv])
qed

lemma script_finished_state:
  assumes inv: "hooks_inv props ctx lib (showSidebarOverride hk) hk p"
  obtains v where "AppView props ctx (showSidebarOverride hk) = Inr v"
    and "fold call_handler (scriptFinishedHandlers p) (showSidebarOverride hk) =
           (showSidebarOverride hk \<and> hasSidebarElements v)"
proof -
  from inv obtain v where v: "AppView props ctx (showSidebarOverride hk) = Inr v"
    and "fold call_handler (scriptFinishedHandlers p) (showSidebarOverride hk) =
           (if \<not> hasSidebarElements v \<and> showSidebarOverride hk then False
            else showSidebarOverride hk)"
    by (rule handlers_mounted)
  then have "fold call_handler (scriptFinishedHandlers p) (showSidebarOverride hk) =
           (showSidebarOverride hk \<and> hasSidebarElements v)"
    by auto
  with v show thesis by (rule that)
qed

lemma script_finished_app_inv:
  assumes inv: "app_inv (Some fb, p)" and s: "step ScriptFinished (Some fb, p) = Inr a'"
  shows "app_inv a'"
proof -
  define st where "st = fold call_handler (scriptFinishedHandlers p)
                 (showSidebarOverride (fiber_hooks fb))"
  from inv
  have hi: "hooks_inv (fiber_props fb) (fiber_ctx fb) (fiber_lib fb)
               (showSidebarOverride (fiber_hooks fb)) (fiber_hooks fb) p"
    by simp
  show ?thesis
  proof (cases "st = showSidebarOverride (fiber_hooks fb)")
    case True
    with s have "a' = (Some fb, p)" by (simp add: st_def Let_def)
    with inv show ?thesis by simp
  next
    case False
    with s have r: "render (fiber_props fb) (fiber_ctx fb) (fiber_lib fb)
                ((fiber_hooks fb)\<lparr>showSidebarOverride := st\<rparr>) p = Inr a'"
      by (simp add: st_def Let_def)
    from hi False have t: "showSidebarOverride (fiber_hooks fb)"
      unfolding st_def by (elim script_finished_state) auto
    from hi have "hooks_inv (fiber_props fb) (fiber_ctx fb) (fiber_lib fb) True
        (fiber_hooks fb) p"
      using t by simp
    then have "hooks_pre ((fiber_hooks fb)\<lparr>showSidebarOverride := st\<rparr>) p"
      by (rule hooks_pre_inv [OF hooks_inv_state])
    from this r show ?thesis by (rule render_app_inv)
  qed
qed

lemma unmount_app_inv:
  assumes inv: "app_inv (Some fb, p)" and s: "step Unmount (Some fb, p) = Inr a'"
  shows "app_inv a'"
proof -
  from s obtain p' where u: "unmount (fiber_hooks fb) p = Inr p'" and a': "a' = (None, p')"
    by (auto split: sum.splits)
  from inv have "hooks_inv (fiber_props fb) (fiber_ctx fb) (fiber_lib fb)
               (showSidebarOverride (fiber_hooks fb)) (fiber_hooks fb) p"
    by simp
  from unmount_inv [OF this u] show ?thesis by (simp add: a')
qed

lemma step_inv:
  assumes "app_inv a" and "step e a = Inr a'"
  shows "app_inv a'"
proof -
  obtain m p where a: "a = (m, p)" by (cases a)
  show ?thesis
  proof (cases e)
    case (Render props ctx lib)
    show ?thesis
    proof (cases m)
      case None
      with assms a Render have "hooks_pre initial_hooks p"
        and "render props ctx lib initial_hooks p = Inr a'"
        by (simp_all add: hooks_pre_initial)
      then show ?thesis by (rule render_app_inv)
    next
      case (Some fb)
      with assms a Render have "hooks_pre (fiber_hooks fb) p"
        and "render props ctx lib (fiber_hooks fb) p = Inr a'"
        by (simp_all add: hooks_pre_inv)
      then show ?thesis by (rule render_app_inv)
    qed
  next
    case Unmount
    show ?thesis
    proof (cases m)
      case None
      with assms a Unmount show ?thesis by auto
    next
      case (Some fb)
      with assms a Unmount have "app_inv (Some fb, p)" "step Unmount (Some fb, p) = Inr a'"
        by simp_all
      then show ?thesis by (rule unmount_app_inv)
    qed
  next
    case (HashChange h)
    with assms a
    have "a' = (m, dispatchEvent ''hashchange'' (listeners p) (p\<lparr>location_hash := h\<rparr>))"
      and "app_inv (m, p)"
      by auto
    then show ?thesis by (simp only: hashchange_app_inv)
  next
    case ScriptFinished
    show ?thesis
    proof (cases m)
      case None
      with assms a ScriptFinished show ?thesis by auto
    next
      case (Some fb)
      with assms a ScriptFinished
      have "app_inv (Some fb, p)" "step ScriptFinished (Some fb, p) = Inr a'"
        by simp_all
      then show ?thesis by (rule script_finished_app_inv)
    qed
  qed
qed

section \<open>Render passes return on well-formed inputs\<close>

lemma run_effects_total:
  assumes s1: "hashchange_effect hk = None \<or>
               (\<exists>d ty l cp. hashchange_effect hk = Some (d, RemoveEventListener ty l cp))"
    and s3: "handler_effect hk = None \<or>
             (\<exists>d rf h. handler_effect hk = Some (d, RemoveScriptFinishedHandler (Some rf) h))"
    and a: "addScriptFinishedHandler lib = Some af"
  shows "\<exists>hk' p'. run_effects props lib v handler hk p = Inr (hk', p')"
proof -
  note defs = run_effects_def Let_def deps_changed_def cleanup_slot_def
    hashchange_setup_def handler_setup_def a
  from s1 s3 show ?thesis
  proof (elim disjE exE)
    assume "hashchange_effect hk = None" "handler_effect hk = None"
    then show ?thesis by (simp add: defs)
  next
    fix d rf h
    assume "hashchange_effect hk = None"
      "handler_effect hk = Some (d, RemoveScriptFinishedHandler (Some rf) h)"
    then show ?thesis by (simp add: defs)
  next
    fix d ty l cp
    assume "hashchange_effect hk = Some (d, RemoveEventListener ty l cp)"
      "handler_effect hk = None"
    then show ?thesis by (simp add: defs)
  next
    fix d ty l cp d' rf h
    assume "hashchange_effect hk = Some (d, RemoveEventListener ty l cp)"
      "handler_effect hk = Some (d', RemoveScriptFinishedHandler (Some rf) h)"
    then show ?thesis by (simp add: defs)
  qed
qed


lemma hooks_inv_cleanups:
  assumes "hooks_inv props ctx lib r hk p"
  shows "cleanups_defined hk \<longleftrightarrow> removeScriptFinishedHandler lib \<noteq> None"
  using hooks_inv_handler [OF assms]
  by (cases "removeScriptFinishedHandler lib") (auto simp: cleanups_defined_def)

lemma hooks_pre_slots:
  assumes "hooks_pre hk p" and "cleanups_defined hk"
  shows "(hashchange_effect hk = None \<or>
          (\<exists>d ty l cp. hashchange_effect hk = Some (d, RemoveEventListener ty l cp))) \<and>
         (handler_effect hk = None \<or>
          (\<exists>d rf h. handler_effect hk = Some (d, RemoveScriptFinishedHandler (Some rf) h)))"
  using assms(1) unfolding hooks_pre_def
proof (elim disjE conjE exE)
  assume "hk = initial_hooks"
  then show ?thesis by (simp add: initial_hooks_def)
next
  fix props ctx lib r
  assume inv: "hooks_inv props ctx lib r hk p"
  with assms(2) obtain rf where rf: "removeScriptFinishedHandler lib = Some rf"
    by (auto simp: hooks_inv_cleanups)
  from hooks_inv_listener [OF inv] hooks_inv_handler [OF inv] rf
  show ?thesis by auto
qed

lemma commit_total:
  assumes pre: "hooks_pre hk p" and rm: "cleanups_defined hk"
    and wf: "well_formed props lib"
  shows "\<exists>v hk' p'. commit props ctx lib hk p = Inr (v, hk', p')"
proof -
  from wf obtain v where v: "AppView props ctx (showSidebarOverride hk) = Inr v"
    using AppView_well_formed by blast
  from wf obtain af where af: "addScriptFinishedHandler lib = Some af"
    by (auto simp: well_formed_def)
  note slots = hooks_pre_slots [OF pre rm]
  from run_effects_total [OF slots [THEN conjunct1] slots [THEN conjunct2] af]
  obtain hk' p' where
    "run_effects props lib v
       (useCallback_handler (hasSidebarElements v) (showSidebarOverride hk) hk (next_id p))
       hk (p\<lparr>next_id := Suc (next_id p)\<rparr>) = Inr (hk', p')"
    by blast
  with v have "commit props ctx lib hk p = Inr (v, hk', p')"
    by (simp add: commit_Inr)
  then show ?thesis by blast
qed

lemma settle_total:
  assumes "hooks_pre hk p" and "cleanups_defined hk" and "well_formed props lib"
  shows "\<exists>v hk' p'. settle props ctx lib hk p = Inr (v, hk', p')"
  using assms
proof (induction props ctx lib hk p rule: settle.induct)
  case (1 props ctx lib hk p)
  from commit_total [OF "1.prems"]
  obtain v1 hk1 p1 where c: "commit props ctx lib hk p = Inr (v1, hk1, p1)"
    by blast
  show ?case
  proof (cases "showSidebarOverride hk1 = showSidebarOverride hk")
    case True
    with c have "settle props ctx lib hk p = Inr (v1, hk1, p1)"
      by (subst settle.simps) simp
    then show ?thesis by blast
  next
    case False
    from commit_pre [OF "1.prems"(1) c]
    have inv1: "hooks_inv props ctx lib (showSidebarOverride hk) hk1 p1"
      by (rule conjunct2 [THEN conjunct1])
    then have pre1: "hooks_pre hk1 p1" by (rule hooks_pre_inv)
    from "1.prems"(3) have rm1: "cleanups_defined hk1"
      by (simp add: hooks_inv_cleanups [OF inv1] well_formed_def)
    from "1.IH" [OF c refl refl False pre1 rm1 "1.prems"(3)]
    obtain v hk' p' where "settle props ctx lib hk1 p1 = Inr (v, hk', p')"
      by blast
    with c False have "settle props ctx lib hk p = Inr (v, hk', p')"
      by (subst settle.simps) simp
    then show ?thesis by blast
  qed
qed

lemma render_total:
  assumes "hooks_pre hk p" and "cleanups_defined hk" and "well_formed props lib"
  shows "\<exists>a. render props ctx lib hk p = Inr a"
proof -
  from settle_total [OF assms] obtain v hk' p' where
    "settle props ctx lib hk p = Inr (v, hk', p')"
    by blast
  then show ?thesis by (simp add: render_def)
qed

text \<open>Every event returns when the application was last rendered with well-formed
  inputs, and leaves it so when its own inputs are well-formed.\<close>

lemma render_wf:
  assumes "hooks_pre hk p" and "render props ctx lib hk p = Inr a" and "well_formed props lib"
  shows "wf_app a \<and> uncaught (snd a) = uncaught p"
  using assms(1) assms(2)
proof (rule render_inv)
  fix hk' p' v1
  assume "a = (Some \<lparr>fiber_props = props, fiber_ctx = ctx, fiber_lib = lib,
                      fiber_hooks = hk'\<rparr>, p')"
    and "same_outside p p'"
  with assms(3) show ?thesis by (simp add: same_outside_def)
qed

lemma step_total:
  assumes inv: "app_inv a" and wf: "wf_app a" and e: "wf_event e"
  shows "\<exists>a'. step e a = Inr a' \<and> wf_app a' \<and> uncaught (snd a') = uncaught (snd a)"
proof -
  obtain m p where a: "a = (m, p)" by (cases a)
  show ?thesis
  proof (cases m)
    case None
    with inv a have pre: "hooks_pre initial_hooks p"
      by (simp add: hooks_pre_initial)
    have cd: "cleanups_defined initial_hooks"
      by (simp add: cleanups_defined_def initial_hooks_def)
    show ?thesis
    proof (cases e)
      case (Render props ctx lib)
      with e have w: "well_formed props lib" by simp
      from render_total [OF pre cd w] obtain a' where
        r: "render props ctx lib initial_hooks p = Inr a'" by blast
      from render_wf [OF pre r w] r show ?thesis by (simp add: a None Render)
    next
      case Unmount
      then show ?thesis by (simp add: a None)
    next
      case (HashChange h)
      from inv a None have "unsubscribed p" by simp
      then show ?thesis by (simp add: a None HashChange dispatch_unmounted)
    next
      case ScriptFinished
      then show ?thesis by (simp add: a None)
    qed
  next
    case (Some fb)
    with inv a have hi: "hooks_inv (fiber_props fb) (fiber_ctx fb) (fiber_lib fb)
               (showSidebarOverride (fiber_hooks fb)) (fiber_hooks fb) p"
      by simp
    from wf a Some have w0: "well_formed (fiber_props fb) (fiber_lib fb)" by simp
    from hi have pre: "hooks_pre (fiber_hooks fb) p" by (rule hooks_pre_inv)
    from w0 have cd: "cleanups_defined (fiber_hooks fb)"
      by (simp add: hooks_inv_cleanups [OF hi] well_formed_def)
    show ?thesis
    proof (cases e)
      case (Render props ctx lib)
      with e have w: "well_formed props lib" by simp
      from render_total [OF pre cd w] obtain a' where
        r: "render props ctx lib (fiber_hooks fb) p = Inr a'" by blast
      from render_wf [OF pre r w] r show ?thesis by (simp add: a Some Render)
    next
      case Unmount
      from hooks_inv_listener [OF hi] hooks_inv_handler [OF hi] w0
      obtain p' where "unmount (fiber_hooks fb) p = Inr p'" "uncaught p' = uncaught p"
        by (auto simp: unmount_def cleanup_slot_def well_formed_def removeEventListener_def
            remove_handler_def)
      then show ?thesis by (simp add: a Some Unmount)
    next
      case (HashChange h)
      from w0 obtain send where "sendMessageToHost (fiber_props fb) = Some send"
        by (auto simp: well_formed_def)
      with wf show ?thesis
        by (simp add: a Some HashChange dispatch_mounted [OF hi])
    next
      case ScriptFinished
      define st where "st = fold call_handler (scriptFinishedHandlers p)
                 (showSidebarOverride (fiber_hooks fb))"
      show ?thesis
      proof (cases "st = showSidebarOverride (fiber_hooks fb)")
        case True
        with wf show ?thesis by (simp add: a Some ScriptFinished st_def Let_def)
      next
        case False
        from hi False have t: "showSidebarOverride (fiber_hooks fb)"
          unfolding st_def by (elim script_finished_state) auto
        from hi have "hooks_inv (fiber_props fb) (fiber_ctx fb) (fiber_lib fb) True
            (fiber_hooks fb) p"
          using t by simp
        then have pre': "hooks_pre ((fiber_hooks fb)\<lparr>showSidebarOverride := st\<rparr>) p"
          by (rule hooks_pre_inv [OF hooks_inv_state])
        from cd have cd': "cleanups_defined ((fiber_hooks fb)\<lparr>showSidebarOverride := st\<rparr>)"
          by (simp add: cleanups_defined_def)
        from render_total [OF pre' cd' w0] obtain a' where
          r: "render (fiber_props fb) (fiber_ctx fb) (fiber_lib fb)
                ((fiber_hooks fb)\<lparr>showSidebarOverride := st\<rparr>) p = Inr a'" by blast
        from render_wf [OF pre' r w0] r False show ?thesis
          by (simp add: a Some ScriptFinished st_def Let_def)
      qed
    qed
  qed
qed

section \<open>Runs of events\<close>

lemma initial_app_inv: "app_inv (initial_app h ls hs)"
  by (auto simp: initial_app_def unsubscribed_def fresh_page_def list_all_iff filter_empty_conv)

lemma initial_app_wf: "wf_app (initial_app h ls hs)"
  by (simp add: initial_app_def)

lemma run_inv:
  "app_inv a \<Longrightarrow> run evs a = Inr a' \<Longrightarrow> app_inv a'"
proof (induction evs arbitrary: a)
  case Nil
  then show ?case by simp
next
  case (Cons e evs)
  from Cons.prems(2) obtain a1 where s: "step e a = Inr a1" and r: "run evs a1 = Inr a'"
    by (auto split: sum.splits)
  from Cons.IH [OF step_inv [OF Cons.prems(1) s] r] show ?case .
qed

lemma reachable_inv: "run evs (initial_app h ls hs) = Inr a \<Longrightarrow> app_inv a"
  using initial_app_inv by (rule run_inv)

text \<open>What an event does to the messages sent and to the registrations of other code.\<close>

lemma call_listener_frame:
  assumes "call_listener f p = Inr q"
  shows "listeners q = listeners p \<and> scriptFinishedHandlers q = scriptFinishedHandlers p \<and>
         next_id q = next_id p \<and> location_hash q = location_hash p"
  using assms by (cases "(f, p)" rule: call_listener.cases) auto

lemma dispatchEvent_frame:
  "listeners (dispatchEvent ty ls p) = listeners p \<and>
   scriptFinishedHandlers (dispatchEvent ty ls p) = scriptFinishedHandlers p \<and>
   next_id (dispatchEvent ty ls p) = next_id p \<and>
   location_hash (dispatchEvent ty ls p) = location_hash p"
proof (induction ls arbitrary: p)
  case Nil
  show ?case by simp
next
  case (Cons l ls)
  obtain ty' f cp where l: "l = (ty', f, cp)" by (cases l)
  show ?case
  proof (cases "ty' = ty")
    case False
    then have "dispatchEvent ty (l # ls) p = dispatchEvent ty ls p" by (simp add: l)
    with Cons.IH [of p] show ?thesis by simp
  next
    case True
    define q where "q = (case call_listener f p of
        Inl e \<Rightarrow> p\<lparr>uncaught := uncaught p @ [e]\<rparr> | Inr p' \<Rightarrow> p')"
    have q: "listeners q = listeners p \<and> scriptFinishedHandlers q = scriptFinishedHandlers p \<and>
         next_id q = next_id p \<and> location_hash q = location_hash p"
    proof (cases "call_listener f p")
      case (Inl e)
      then show ?thesis by (simp add: q_def)
    next
      case (Inr p')
      with call_listener_frame [OF Inr] show ?thesis by (simp add: q_def)
    qed
    from True have "dispatchEvent ty (l # ls) p = dispatchEvent ty ls q"
      by (simp add: l q_def)
    with Cons.IH [of q] q show ?thesis by simp
  qed
qed

lemma step_outside:
  assumes inv: "app_inv (m, p)" and s: "step e (m, p) = Inr (m', p')"
  shows "filter (\<lambda>l. \<not> own_listener l) (listeners p') =
           filter (\<lambda>l. \<not> own_listener l) (listeners p) \<and>
         filter (\<lambda>f. \<not> own f) (scriptFinishedHandlers p') =
           filter (\<lambda>f. \<not> own f) (scriptFinishedHandlers p) \<and>
         ((\<forall>h. e \<noteq> HashChange h) \<longrightarrow> outbox p' = outbox p)"
proof -
  have rnd: ?thesis
    if pre: "hooks_pre hk p" and r: "render props ctx lib hk p = Inr (m', p')"
    for props ctx lib hk
    using pre r by (rule render_inv) (simp add: same_outside_def)
  show ?thesis
  proof (cases e)
    case (Render props ctx lib)
    show ?thesis
    proof (cases m)
      case None
      with inv s Render show ?thesis
        by (intro rnd [of initial_hooks props ctx lib]) (simp_all add: hooks_pre_initial)
    next
      case (Some fb)
      with inv s Render show ?thesis
        by (intro rnd [of "fiber_hooks fb" props ctx lib]) (simp_all add: hooks_pre_inv)
    qed
  next
    case Unmount
    show ?thesis
    proof (cases m)
      case None
      with s Unmount show ?thesis by simp
    next
      case (Some fb)
      with s Unmount have u: "unmount (fiber_hooks fb) p = Inr p'"
        by (auto split: sum.splits)
      from inv Some have "hooks_inv (fiber_props fb) (fiber_ctx fb) (fiber_lib fb)
               (showSidebarOverride (fiber_hooks fb)) (fiber_hooks fb) p"
        by simp
      from unmount_inv [OF this u] show ?thesis by (simp add: same_outside_def)
    qed
  next
    case (HashChange h)
    with s have "p' = dispatchEvent ''hashchange'' (listeners p) (p\<lparr>location_hash := h\<rparr>)"
      by simp
    with HashChange show ?thesis by (simp add: dispatchEvent_frame)
  next
    case ScriptFinished
    show ?thesis
    proof (cases m)
      case None
      with s ScriptFinished show ?thesis by simp
    next
      case (Some fb)
      define st where "st = fold call_handler (scriptFinishedHandlers p)
                 (showSidebarOverride (fiber_hooks fb))"
      from inv Some
      have hi: "hooks_inv (fiber_props fb) (fiber_ctx fb) (fiber_lib fb)
               (showSidebarOverride (fiber_hooks fb)) (fiber_hooks fb) p"
        by simp
      show ?thesis
      proof (cases "st = showSidebarOverride (fiber_hooks fb)")
        case True
        with s Some ScriptFinished show ?thesis by (simp add: st_def Let_def)
      next
        case False
        with s Some ScriptFinished
        have r: "render (fiber_props fb) (fiber_ctx fb) (fiber_lib fb)
                ((fiber_hooks fb)\<lparr>showSidebarOverride := st\<rparr>) p = Inr (m', p')"
          by (simp add: st_def Let_def)
        from hi False have t: "showSidebarOverride (fiber_hooks fb)"
          unfolding st_def by (elim script_finished_state) auto
        from hi have "hooks_inv (fiber_props fb) (fiber_ctx fb) (fiber_lib fb) True
            (fiber_hooks fb) p"
          using t by simp
        then have "hooks_pre ((fiber_hooks fb)\<lparr>showSidebarOverride := st\<rparr>) p"
          by (rule hooks_pre_inv [OF hooks_inv_state])
        from this r show ?thesis by (rule rnd)
      qed
    qed
  qed
qed


lemma run_outside:
  assumes "app_inv (m, p)" and "run evs (m, p) = Inr (m', p')"
  shows "filter (\<lambda>l. \<not> own_listener l) (listeners p') =
           filter (\<lambda>l. \<not> own_listener l) (listeners p) \<and>
         filter (\<lambda>f. \<not> own f) (scriptFinishedHandlers p') =
           filter (\<lambda>f. \<not> own f) (scriptFinishedHandlers p)"
  using assms
proof (induction evs arbitrary: m p)
  case Nil
  then show ?case by simp
next
  case (Cons e evs)
  from Cons.prems(2) obtain m1 p1 where s: "step e (m, p) = Inr (m1, p1)"
    and r: "run evs (m1, p1) = Inr (m', p')"
    by (auto split: sum.splits)
  from Cons.IH [OF step_inv [OF Cons.prems(1) s] r] step_outside [OF Cons.prems(1) s]
  show ?case by simp
qed

lemma reachable_outside:
  assumes "run evs (initial_app h ls hs) = Inr (m, p)"
  shows "filter (\<lambda>l. \<not> own_listener l) (listeners p) =
           map (\<lambda>(ty, r, capture). (ty, External r, capture)) ls \<and>
         filter (\<lambda>f. \<not> own f) (scriptFinishedHandlers p) = map External hs"
proof -
  define p0 where "p0 = snd (initial_app h ls hs)"
  have i: "initial_app h ls hs = (None, p0)" by (simp add: p0_def initial_app_def)
  have "filter (\<lambda>l. \<not> own_listener l) (map (\<lambda>(ty, r, capture). (ty, External r, capture)) xs) =
          map (\<lambda>(ty, r, capture). (ty, External r, capture)) xs" for xs
    by (induction xs) auto
  then have "filter (\<lambda>l. \<not> own_listener l) (listeners p0) =
          map (\<lambda>(ty, r, capture). (ty, External r, capture)) ls"
    by (simp add: p0_def initial_app_def)
  moreover have "filter (\<lambda>f. \<not> own f) (map External ys) = map External ys" for ys
    by (induction ys) auto
  then have "filter (\<lambda>f. \<not> own f) (scriptFinishedHandlers p0) = map External hs"
    by (simp add: p0_def initial_app_def)
  moreover from initial_app_inv [of h ls hs] have "app_inv (None, p0)" by (simp add: i)
  from run_outside [OF this] assms have
    "filter (\<lambda>l. \<not> own_listener l) (listeners p) =
       filter (\<lambda>l. \<not> own_listener l) (listeners p0) \<and>
     filter (\<lambda>f. \<not> own f) (scriptFinishedHandlers p) =
       filter (\<lambda>f. \<not> own f) (scriptFinishedHandlers p0)"
    by (simp add: i)
  ultimately show ?thesis by simp
qed

lemma filter_none: "filter P xs = [] \<Longrightarrow> filter (\<lambda>x. \<not> P x) xs = xs"
  by (induction xs) (auto split: if_splits)

lemma run_total:
  assumes "app_inv a" and "wf_app a" and "list_all wf_event evs"
  shows "\<exists>a'. run evs a = Inr a' \<and> wf_app a' \<and> uncaught (snd a') = uncaught (snd a)"
  using assms
proof (induction evs arbitrary: a)
  case Nil
  then show ?case by simp
next
  case (Cons e evs)
  from Cons.prems(3) have e: "wf_event e" and es: "list_all wf_event evs" by simp_all
  from step_total [OF Cons.prems(1) Cons.prems(2) e] obtain a1 where
    s: "step e a = Inr a1" and w: "wf_app a1" and u: "uncaught (snd a1) = uncaught (snd a)"
    by blast
  from Cons.IH [OF step_inv [OF Cons.prems(1) s] w es] s u show ?case by simp
qed

text \<open>Every message sent is an \<^verbatim>\<open>UPDATE_HASH\<close> message.\<close>

lemma step_messages:
  assumes inv: "app_inv (m, p)" and s: "step e (m, p) = Inr (m', p')"
    and o: "list_all (\<lambda>(f, msg). msg_type msg = ''UPDATE_HASH'') (outbox p)"
  shows "list_all (\<lambda>(f, msg). msg_type msg = ''UPDATE_HASH'') (outbox p')"
proof (cases "\<exists>h. e = HashChange h")
  case False
  with step_outside [OF inv s] o show ?thesis by simp
next
  case True
  then obtain h where e: "e = HashChange h" by blast
  show ?thesis
  proof (cases m)
    case None
    with inv have "unsubscribed p" by simp
    with s e o show ?thesis by (auto simp: dispatch_unmounted)
  next
    case (Some fb)
    with inv have hi: "hooks_inv (fiber_props fb) (fiber_ctx fb) (fiber_lib fb)
               (showSidebarOverride (fiber_hooks fb)) (fiber_hooks fb) p"
      by simp
    from s e o show ?thesis
      by (cases "sendMessageToHost (fiber_props fb)") (auto simp: dispatch_mounted [OF hi])
  qed
qed

lemma run_messages:
  assumes "app_inv (m, p)" and "run evs (m, p) = Inr (m', p')"
    and "list_all (\<lambda>(f, msg). msg_type msg = ''UPDATE_HASH'') (outbox p)"
  shows "list_all (\<lambda>(f, msg). msg_type msg = ''UPDATE_HASH'') (outbox p')"
  using assms
proof (induction evs arbitrary: m p)
  case Nil
  then show ?case by simp
next
  case (Cons e evs)
  from Cons.prems(2) obtain m1 p1 where s: "step e (m, p) = Inr (m1, p1)"
    and r: "run evs (m1, p1) = Inr (m', p')"
    by (auto split: sum.splits)
  from Cons.IH [OF step_inv [OF Cons.prems(1) s] r step_messages [OF Cons.prems(1) s Cons.prems(3)]]
  show ?case .
qed

section \<open>The override state\<close>

lemma AppView_same_props:
  assumes "AppView props ctx ov = Inr v" and "AppView props ctx ov' = Inr v'"
  shows "hasSidebarElements v' = hasSidebarElements v"
  using assms by (elim AppView_Inr) simp

lemma AppView_hidden:
  assumes "AppView props ctx False = Inr v" and "\<not> hasSidebarElements v"
    and "hideSidebarNav props"
  shows "\<not> shown v"
  using assms by (elim AppView_Inr) (simp add: showSidebar_def)

lemma AppView_override_shown:
  assumes "AppView props ctx True = Inr v"
  shows "shown v"
  using assms by (elim AppView_Inr) (auto dest: showSidebar_override)

lemma render_override:
  assumes inv: "app_inv (m, p)" and s: "step (Render props ctx lib) (m, p) = Inr a'"
  shows "\<exists>v. AppView props ctx (current_override m) = Inr v \<and>
             current_override (fst a') =
               (current_override m \<or> (shown v \<and> hideSidebarNav props))"
proof -
  have rnd: "\<exists>v. AppView props ctx (showSidebarOverride hk) = Inr v \<and>
             current_override (fst a') =
               (showSidebarOverride hk \<or> (shown v \<and> hideSidebarNav props))"
    if pre: "hooks_pre hk p" and r: "render props ctx lib hk p = Inr a'" for hk
    using pre r by (rule render_inv) auto
  show ?thesis
  proof (cases m)
    case None
    with inv s have pre: "hooks_pre initial_hooks p"
      and r: "render props ctx lib initial_hooks p = Inr a'"
      by (simp_all add: hooks_pre_initial)
    from rnd [OF pre r] show ?thesis by (simp add: None initial_hooks_def)
  next
    case (Some fb)
    with inv s have pre: "hooks_pre (fiber_hooks fb) p"
      and r: "render props ctx lib (fiber_hooks fb) p = Inr a'"
      by (simp_all add: hooks_pre_inv)
    from rnd [OF pre r] show ?thesis by (simp add: Some)
  qed
qed

lemma script_finished_override:
  assumes inv: "app_inv (Some fb, p)" and s: "step ScriptFinished (Some fb, p) = Inr a'"
  shows "\<exists>v. AppView (fiber_props fb) (fiber_ctx fb) (showSidebarOverride (fiber_hooks fb)) = Inr v \<and>
             current_override (fst a') =
               (showSidebarOverride (fiber_hooks fb) \<and> hasSidebarElements v)"
proof -
  define st where "st = fold call_handler (scriptFinishedHandlers p)
                 (showSidebarOverride (fiber_hooks fb))"
  from inv
  have hi: "hooks_inv (fiber_props fb) (fiber_ctx fb) (fiber_lib fb)
               (showSidebarOverride (fiber_hooks fb)) (fiber_hooks fb) p"
    by simp
  from hi obtain v where
    v: "AppView (fiber_props fb) (fiber_ctx fb) (showSidebarOverride (fiber_hooks fb)) = Inr v"
    and st: "st = (showSidebarOverride (fiber_hooks fb) \<and> hasSidebarElements v)"
    unfolding st_def by (rule script_finished_state)
  show ?thesis
  proof (cases "st = showSidebarOverride (fiber_hooks fb)")
    case True
    with s have "a' = (Some fb, p)" by (simp add: st_def Let_def)
    with v st True show ?thesis by auto
  next
    case False
    with st have t: "showSidebarOverride (fiber_hooks fb)" and h: "\<not> hasSidebarElements v"
      and f: "st = False"
      by auto
    from False s have r: "render (fiber_props fb) (fiber_ctx fb) (fiber_lib fb)
                ((fiber_hooks fb)\<lparr>showSidebarOverride := st\<rparr>) p = Inr a'"
      by (simp add: st_def Let_def)
    from hi have "hooks_inv (fiber_props fb) (fiber_ctx fb) (fiber_lib fb) True
        (fiber_hooks fb) p"
      using t by simp
    then have pre: "hooks_pre ((fiber_hooks fb)\<lparr>showSidebarOverride := st\<rparr>) p"
      by (rule hooks_pre_inv [OF hooks_inv_state])
    from pre r have "\<not> current_override (fst a')"
    proof (rule render_inv)
      fix hk' p' v1
      assume a': "a' = (Some \<lparr>fiber_props = fiber_props fb, fiber_ctx = fiber_ctx fb,
                               fiber_lib = fiber_lib fb, fiber_hooks = hk'\<rparr>, p')"
        and v1: "AppView (fiber_props fb) (fiber_ctx fb)
                  (showSidebarOverride ((fiber_hooks fb)\<lparr>showSidebarOverride := st\<rparr>)) = Inr v1"
        and o: "showSidebarOverride hk' =
                  (showSidebarOverride ((fiber_hooks fb)\<lparr>showSidebarOverride := st\<rparr>) \<or>
                   (shown v1 \<and> hideSidebarNav (fiber_props fb)))"
      from v1 f have v1': "AppView (fiber_props fb) (fiber_ctx fb) False = Inr v1" by simp
      from AppView_same_props [OF v v1'] h have "\<not> hasSidebarElements v1" by simp
      from AppView_hidden [OF v1' this] o f show ?thesis by (auto simp: a')
    qed
    with v t h show ?thesis by auto
  qed
qed

lemma latch_set:
  assumes inv: "app_inv (Some fb, p)"
  shows "\<exists>v. AppView (fiber_props fb) (fiber_ctx fb) (showSidebarOverride (fiber_hooks fb)) = Inr v \<and>
             (shown v \<and> hideSidebarNav (fiber_props fb) \<longrightarrow> showSidebarOverride (fiber_hooks fb))"
proof -
  from inv
  have "hooks_inv (fiber_props fb) (fiber_ctx fb) (fiber_lib fb)
               (showSidebarOverride (fiber_hooks fb)) (fiber_hooks fb) p"
    by simp
  from hooks_inv_override [OF this] show ?thesis by auto
qed

lemma latch_run:
  assumes "app_inv (m, p)" and "current_override m" and "list_all keeps_mounted evs"
    and "run evs (m, p) = Inr (m', p')"
  shows "current_override m'"
  using assms
proof (induction evs arbitrary: m p)
  case Nil
  then show ?case by simp
next
  case (Cons e evs)
  from Cons.prems(4) obtain m1 p1 where s: "step e (m, p) = Inr (m1, p1)"
    and r: "run evs (m1, p1) = Inr (m', p')"
    by (auto split: sum.splits)
  from Cons.prems(3) have k: "keeps_mounted e" and ks: "list_all keeps_mounted evs"
    by simp_all
  have "current_override m1"
  proof (cases e)
    case (Render props ctx lib)
    with render_override [OF Cons.prems(1)] s Cons.prems(2) show ?thesis by fastforce
  next
    case (HashChange h)
    with s Cons.prems(2) show ?thesis by auto
  next
    case Unmount
    with k show ?thesis by simp
  next
    case ScriptFinished
    with k show ?thesis by simp
  qed
  from Cons.IH [OF step_inv [OF Cons.prems(1) s] this ks r] show ?case .
qed

section \<open>The life of AppView: messages, subscriptions, failures, the override\<close>

lemma sample_run: "run [sample_mount] sample_initial = Inr (Some sample_fiber, sample_page)"
  unfolding sample_mount_def sample_initial_def sample_fiber_def sample_page_def
  by code_simp

lemma sample_wf: "well_formed (sample_props ts se ee n hide) sample_lib"
  by (simp add: well_formed_def sample_props_def sample_lib_def)


lemma run_append:
  "run (es @ es') a = (case run es a of Inl err \<Rightarrow> Inl err | Inr a' \<Rightarrow> run es' a')"
  by (induction es arbitrary: a) (simp_all split: sum.splits)

lemma AppView_hasSidebarElements:
  assumes "AppView props ctx ov = Inr v" and "sidebar (elements props) = Some sb"
  shows "hasSidebarElements v = (\<not> isEmpty sb)"
  using assms by (elim AppView_Inr) simp

lemma sample_step:
  "step sample_mount sample_initial = Inr (Some sample_fiber, sample_page)"
  using sample_run by (simp split: sum.splits)

text \<open>
  C2.  In every state that the application reaches from its initial state with AppView
  mounted and \<^verbatim>\<open>sendMessageToHost\<close> defined, a \<^verbatim>\<open>hashchange\<close> event with the location hash
  \<open>h\<close> sends exactly one message, to the \<^verbatim>\<open>sendMessageToHost\<close> of the latest props, and
  the message is \<^verbatim>\<open>{ type: "UPDATE_HASH", hash: h }\<close>; nothing else changes but the
  location hash.  Every message sent so far is an \<^verbatim>\<open>UPDATE_HASH\<close> message, and no other
  event sends a message.
\<close>

theorem hashchange_sends_one_UPDATE_HASH:
  assumes reach: "run evs (initial_app h0 ls hs) = Inr (Some fb, p)"
    and send: "sendMessageToHost (fiber_props fb) = Some f"
  shows "step (HashChange h) (Some fb, p) =
           Inr (Some fb,
                p\<lparr>location_hash := h,
                  outbox := outbox p @ [(f, \<lparr>msg_type = ''UPDATE_HASH'', hash = h\<rparr>)]\<rparr>) \<and>
         list_all (\<lambda>(g, msg). msg_type msg = ''UPDATE_HASH'') (outbox p) \<and>
         (\<forall>e a'. (\<forall>h'. e \<noteq> HashChange h') \<longrightarrow> step e (Some fb, p) = Inr a' \<longrightarrow>
                 outbox (snd a') = outbox p)"
proof -
  from reach have inv: "app_inv (Some fb, p)" by (rule reachable_inv)
  then have hi: "hooks_inv (fiber_props fb) (fiber_ctx fb) (fiber_lib fb)
               (showSidebarOverride (fiber_hooks fb)) (fiber_hooks fb) p"
    by simp
  have one: "step (HashChange h) (Some fb, p) =
           Inr (Some fb,
                p\<lparr>location_hash := h,
                  outbox := outbox p @ [(f, \<lparr>msg_type = ''UPDATE_HASH'', hash = h\<rparr>)]\<rparr>)"
    by (simp add: dispatch_mounted [OF hi] send)
  have "app_inv (initial_app h0 ls hs)" by (rule initial_app_inv)
  moreover have "outbox (snd (initial_app h0 ls hs)) = []" by (simp add: initial_app_def)
  ultimately have all: "list_all (\<lambda>(g, msg). msg_type msg = ''UPDATE_HASH'') (outbox p)"
    using run_messages [of None "snd (initial_app h0 ls hs)" evs "Some fb" p] reach
    by (simp add: initial_app_def)
  have other: "outbox (snd a') = outbox p"
    if "\<forall>h'. e \<noteq> HashChange h'" and "step e (Some fb, p) = Inr a'" for e a'
    using step_outside [OF inv, of e "fst a'" "snd a'"] that by simp
  from one all other show ?thesis by blast
qed

theorem hashchange_sends_one_UPDATE_HASH_witness:
  "run [sample_mount] sample_initial = Inr (Some sample_fiber, sample_page) \<and>
   sendMessageToHost (fiber_props sample_fiber) = Some 3 \<and>
   step (HashChange ''#b'') (Some sample_fiber, sample_page) =
     Inr (Some sample_fiber,
          sample_page\<lparr>location_hash := ''#b'',
            outbox := [(3, \<lparr>msg_type = ''UPDATE_HASH'', hash = ''#b''\<rparr>)]\<rparr>)"
proof -
  have s: "sendMessageToHost (fiber_props sample_fiber) = Some 3"
    by (simp add: sample_fiber_def sample_props_def)
  have o: "outbox sample_page = []" by (simp add: sample_page_def)
  from hashchange_sends_one_UPDATE_HASH
    [OF sample_run [unfolded sample_initial_def] s, of "''#b''"] sample_run s o
  show ?thesis by simp
qed

text \<open>
  C4.  The cleanup that the first effect returns calls \<^verbatim>\<open>removeEventListener\<close> with the
  event name, listener and capture flag that the effect passed to \<^verbatim>\<open>addEventListener\<close>,
  and the cleanup that the third effect returns calls \<^verbatim>\<open>removeScriptFinishedHandler\<close>
  with the handler that the effect passed to \<^verbatim>\<open>addScriptFinishedHandler\<close>.  In every
  state that the application reaches with AppView mounted, the window holds exactly one
  listener of AppView and the host runtime exactly one handler of AppView, and they are
  the ones that the kept cleanups remove.  Unmounting returns when
  \<^verbatim>\<open>removeScriptFinishedHandler\<close> is defined, and leaves in both registries exactly the
  registrations of other code that were there at the start.
\<close>

theorem subscriptions_removed_symmetrically:
  assumes reach: "run evs (initial_app h0 ls hs) = Inr (Some fb, p)"
  shows "(\<forall>send q. \<exists>l. hashchange_setup send q =
             (RemoveEventListener ''hashchange'' l False,
              addEventListener ''hashchange'' l False (q\<lparr>next_id := Suc (next_id q)\<rparr>))) \<and>
         (\<forall>handler a r q. handler_setup handler (Some a) r q =
             Inr (RemoveScriptFinishedHandler r handler, add_handler handler q)) \<and>
         (\<exists>l handler.
            filter own_listener (listeners p) = [(''hashchange'', l, False)] \<and>
            map_option snd (hashchange_effect (fiber_hooks fb)) =
              Some (RemoveEventListener ''hashchange'' l False) \<and>
            filter own (scriptFinishedHandlers p) = [handler] \<and>
            map_option snd (handler_effect (fiber_hooks fb)) =
              Some (RemoveScriptFinishedHandler (removeScriptFinishedHandler (fiber_lib fb))
                      handler)) \<and>
         (\<forall>a'. step Unmount (Some fb, p) = Inr a' \<longrightarrow>
            a' = (None,
                  p\<lparr>listeners := map (\<lambda>(ty, r, capture). (ty, External r, capture)) ls,
                    scriptFinishedHandlers := map External hs\<rparr>)) \<and>
         (removeScriptFinishedHandler (fiber_lib fb) \<noteq> None \<longrightarrow>
            (\<exists>a'. step Unmount (Some fb, p) = Inr a'))"
proof -
  from reach have inv: "app_inv (Some fb, p)" by (rule reachable_inv)
  then have hi: "hooks_inv (fiber_props fb) (fiber_ctx fb) (fiber_lib fb)
               (showSidebarOverride (fiber_hooks fb)) (fiber_hooks fb) p"
    by simp
  from hooks_inv_listener [OF hi] obtain i where
    s1: "hashchange_effect (fiber_hooks fb) =
          Some (sendMessageToHost (fiber_props fb),
                RemoveEventListener ''hashchange''
                  (Listener i (sendMessageToHost (fiber_props fb))) False)"
    and l1: "filter own_listener (listeners p) =
          [(''hashchange'', Listener i (sendMessageToHost (fiber_props fb)), False)]"
    by blast
  from hooks_inv_handler [OF hi] obtain handler where
    s3: "handler_effect (fiber_hooks fb) =
          Some ((handler, addScriptFinishedHandler (fiber_lib fb),
                 removeScriptFinishedHandler (fiber_lib fb)),
                RemoveScriptFinishedHandler (removeScriptFinishedHandler (fiber_lib fb)) handler)"
    and l3: "filter own (scriptFinishedHandlers p) = [handler]"
    by blast
  have setup1: "\<exists>l. hashchange_setup send q =
             (RemoveEventListener ''hashchange'' l False,
              addEventListener ''hashchange'' l False (q\<lparr>next_id := Suc (next_id q)\<rparr>))"
    for send q
    by (simp add: hashchange_setup_def Let_def)
  have setup3: "handler_setup h (Some a) r q =
             Inr (RemoveScriptFinishedHandler r h, add_handler h q)" for h a r q
    by (simp add: handler_setup_def)
  have held: "\<exists>l handler.
            filter own_listener (listeners p) = [(''hashchange'', l, False)] \<and>
            map_option snd (hashchange_effect (fiber_hooks fb)) =
              Some (RemoveEventListener ''hashchange'' l False) \<and>
            filter own (scriptFinishedHandlers p) = [handler] \<and>
            map_option snd (handler_effect (fiber_hooks fb)) =
              Some (RemoveScriptFinishedHandler (removeScriptFinishedHandler (fiber_lib fb))
                      handler)"
    using s1 l1 s3 l3 by simp
  have gone: "a' = (None,
                  p\<lparr>listeners := map (\<lambda>(ty, r, capture). (ty, External r, capture)) ls,
                    scriptFinishedHandlers := map External hs\<rparr>)"
    if u: "step Unmount (Some fb, p) = Inr a'" for a'
  proof -
    from u obtain p' where u': "unmount (fiber_hooks fb) p = Inr p'" and a': "a' = (None, p')"
      by (auto split: sum.splits)
    from unmount_inv [OF hi u'] have un: "unsubscribed p'" and so: "same_outside p p'"
      by simp_all
    from reach u a' have "run (evs @ [Unmount]) (initial_app h0 ls hs) = Inr (None, p')"
      by (simp add: run_append)
    from reachable_outside [OF this] un
    have "listeners p' = map (\<lambda>(ty, r, capture). (ty, External r, capture)) ls"
      and "scriptFinishedHandlers p' = map External hs"
      by (simp_all add: unsubscribed_def filter_none)
    moreover from u' obtain rf where "removeScriptFinishedHandler (fiber_lib fb) = Some rf"
      by (cases "removeScriptFinishedHandler (fiber_lib fb)")
        (simp_all add: unmount_def cleanup_slot_def s1 s3)
    with u' have "p' = p\<lparr>listeners := listeners p',
        scriptFinishedHandlers := scriptFinishedHandlers p'\<rparr>"
      by (auto simp: unmount_def cleanup_slot_def s1 s3 removeEventListener_def
          remove_handler_def)
    ultimately show ?thesis by (simp add: a')
  qed
  have returns: "\<exists>a'. step Unmount (Some fb, p) = Inr a'"
    if "removeScriptFinishedHandler (fiber_lib fb) \<noteq> None"
    using that by (auto simp: unmount_def cleanup_slot_def s1 s3)
  from setup1 setup3 held gone returns show ?thesis by blast
qed

theorem subscriptions_removed_symmetrically_witness:
  "run [sample_mount] sample_initial = Inr (Some sample_fiber, sample_page) \<and>
   step Unmount (Some sample_fiber, sample_page) =
     Inr (None,
          sample_page\<lparr>listeners := [(''hashchange'', External 77, False)],
            scriptFinishedHandlers := [External 88]\<rparr>)"
proof -
  have r: "removeScriptFinishedHandler (fiber_lib sample_fiber) \<noteq> None"
    by (simp add: sample_fiber_def sample_lib_def)
  from subscriptions_removed_symmetrically [OF sample_run [unfolded sample_initial_def]] r
    sample_run
  show ?thesis by auto
qed


text \<open>
  C7.  On inputs of the declared types AppView never fails.  A render with every region
  present, a page list and every callback defined returns a tree.  From the initial
  application, every sequence of events whose renders carry such inputs runs to its end:
  every render pass, effect, cleanup, listener and handler returns, the re-rendering
  after a state change stops, and no listener leaves an exception uncaught.
\<close>

theorem AppView_never_fails:
  assumes "list_all wf_event evs"
  shows "(\<exists>m p. run evs (initial_app h0 ls hs) = Inr (m, p) \<and> uncaught p = []) \<and>
         (\<forall>props ctx lib ov. well_formed props lib \<longrightarrow> (\<exists>v. AppView props ctx ov = Inr v))"
proof -
  from run_total [OF initial_app_inv initial_app_wf assms, of h0 ls hs]
  obtain a' where "run evs (initial_app h0 ls hs) = Inr a'"
    and "uncaught (snd a') = uncaught (snd (initial_app h0 ls hs))"
    by blast
  then have "\<exists>m p. run evs (initial_app h0 ls hs) = Inr (m, p) \<and> uncaught p = []"
    by (cases a') (simp add: initial_app_def)
  with AppView_well_formed show ?thesis by blast
qed

theorem AppView_never_fails_witness:
  "\<not> isl (run [sample_mount, HashChange ''#b'', ScriptFinished,
               Render (sample_props [''chatInput''] True False 0 False) (sample_ctx True)
                 sample_lib,
               Unmount] sample_initial) \<and>
   uncaught (snd (projr (run [sample_mount, HashChange ''#b'', ScriptFinished,
               Render (sample_props [''chatInput''] True False 0 False) (sample_ctx True)
                 sample_lib,
               Unmount] sample_initial))) = []"
proof -
  have "list_all wf_event [sample_mount, HashChange ''#b'', ScriptFinished,
               Render (sample_props [''chatInput''] True False 0 False) (sample_ctx True)
                 sample_lib,
               Unmount]"
    by (simp add: sample_mount_def sample_wf)
  from AppView_never_fails [OF this, of "''#a''" "[(''hashchange'', 77, False)]" "[88]"]
  show ?thesis by (auto simp: sample_initial_def)
qed

text \<open>
  C9.  The \<open>showSidebarOverride\<close> state is a latch.  It starts false.  In every state
  that the application reaches from its initial state:
  \<^item> a render ends with the state true exactly when the state was true before, or the
    render, which read the state as it was, had \<open>showSidebar\<close> true and \<open>hideSidebarNav\<close>
    true; so a render sets it exactly when it rendered \<open>showSidebar\<close> true,
    \<open>hideSidebarNav\<close> true and the override false, and never resets it;
  \<^item> a \<^verbatim>\<open>hashchange\<close> event leaves it as it is;
  \<^item> the end of a script run leaves it true exactly when it was true and the sidebar
    region of the latest props is non-empty; so it resets it exactly when the sidebar
    region is empty while the override is true;
  \<^item> when the latest render showed the sidebar with \<open>hideSidebarNav\<close> set, the state is
    true; while the state is true every render that returns shows the sidebar; and the
    state stays true over every sequence of renders and \<^verbatim>\<open>hashchange\<close> events.
\<close>

theorem showSidebarOverride_latch:
  assumes reach: "run evs (initial_app h0 ls hs) = Inr (m, p)"
  shows "showSidebarOverride initial_hooks = False \<and>
         (\<forall>props ctx lib a'. step (Render props ctx lib) (m, p) = Inr a' \<longrightarrow>
            (\<exists>v. AppView props ctx (current_override m) = Inr v \<and>
                 current_override (fst a') =
                   (current_override m \<or> (shown v \<and> hideSidebarNav props)))) \<and>
         (\<forall>h a'. step (HashChange h) (m, p) = Inr a' \<longrightarrow>
            current_override (fst a') = current_override m) \<and>
         (\<forall>fb a'. m = Some fb \<longrightarrow> step ScriptFinished (m, p) = Inr a' \<longrightarrow>
            (\<exists>v. AppView (fiber_props fb) (fiber_ctx fb) (current_override m) = Inr v \<and>
                 current_override (fst a') = (current_override m \<and> hasSidebarElements v))) \<and>
         (\<forall>fb. m = Some fb \<longrightarrow>
            (\<exists>v. AppView (fiber_props fb) (fiber_ctx fb) (current_override m) = Inr v \<and>
                 (shown v \<and> hideSidebarNav (fiber_props fb) \<longrightarrow> current_override m))) \<and>
         (\<forall>props ctx v. current_override m \<longrightarrow>
            AppView props ctx (current_override m) = Inr v \<longrightarrow> shown v) \<and>
         (\<forall>evs' m' p'. current_override m \<longrightarrow> list_all keeps_mounted evs' \<longrightarrow>
            run evs' (m, p) = Inr (m', p') \<longrightarrow> current_override m')"
proof -
  from reach have inv: "app_inv (m, p)" by (rule reachable_inv)
  have start: "showSidebarOverride initial_hooks = False"
    by (simp add: initial_hooks_def)
  have rnd: "\<exists>v. AppView props ctx (current_override m) = Inr v \<and>
                 current_override (fst a') =
                   (current_override m \<or> (shown v \<and> hideSidebarNav props))"
    if "step (Render props ctx lib) (m, p) = Inr a'" for props ctx lib a'
    using inv that by (rule render_override)
  have hc: "current_override (fst a') = current_override m"
    if "step (HashChange h) (m, p) = Inr a'" for h a'
    using that by auto
  have sf: "\<exists>v. AppView (fiber_props fb) (fiber_ctx fb) (current_override m) = Inr v \<and>
                 current_override (fst a') = (current_override m \<and> hasSidebarElements v)"
    if "m = Some fb" and "step ScriptFinished (m, p) = Inr a'" for fb a'
    using script_finished_override [of fb p a'] inv that by simp
  have set: "\<exists>v. AppView (fiber_props fb) (fiber_ctx fb) (current_override m) = Inr v \<and>
                 (shown v \<and> hideSidebarNav (fiber_props fb) \<longrightarrow> current_override m)"
    if "m = Some fb" for fb
    using latch_set [of fb p] inv that by simp
  have sh: "shown v"
    if "current_override m" and "AppView props ctx (current_override m) = Inr v"
    for props ctx v
    using that by (simp add: AppView_override_shown)
  have keep: "current_override m'"
    if "current_override m" and "list_all keeps_mounted evs'"
      and "run evs' (m, p) = Inr (m', p')" for evs' m' p'
    using inv that by (rule latch_run)
  from start rnd hc sf set sh keep show ?thesis by blast
qed


theorem showSidebarOverride_latch_witness:
  "current_override (fst (projr (run [sample_mount] sample_initial))) \<and>
   current_override (fst (projr (run
     [sample_mount,
      Render (sample_props [] True True 0 True) (sample_ctx False) sample_lib]
     sample_initial))) \<and>
   \<not> current_override (fst (projr (run
     [sample_mount,
      Render (sample_props [] True True 0 True) (sample_ctx False) sample_lib,
      ScriptFinished]
     sample_initial)))"
proof -
  let ?B = "sample_props [] True True 0 True"
  let ?RB = "Render ?B (sample_ctx False) sample_lib"
  note r1 = sample_run [unfolded sample_initial_def]
  note latch1 = showSidebarOverride_latch [OF r1]
  have o1: "current_override (Some sample_fiber)" by (simp add: sample_fiber_def)
  have wf1: "wf_app (Some sample_fiber, sample_page)"
    by (simp add: sample_fiber_def sample_wf)
  have "wf_event ?RB" by (simp add: sample_wf)
  from step_total [OF reachable_inv [OF r1] wf1 this] obtain a2 where
    s2: "step ?RB (Some sample_fiber, sample_page) = Inr a2" and wf2: "wf_app a2"
    by blast
  from latch1 [THEN conjunct2, THEN conjunct1, rule_format, OF s2] o1
  have o2: "current_override (fst a2)" by auto
  then obtain fb2 p2 where a2: "a2 = (Some fb2, p2)"
    by (cases a2; cases "fst a2") auto
  from s2 a2 have props2: "fiber_props fb2 = ?B"
    by (auto simp: render_def split: sum.splits)
  from sample_step s2 a2
  have r2: "run [sample_mount, ?RB] sample_initial = Inr (Some fb2, p2)"
    by simp
  note latch2 = showSidebarOverride_latch [OF r2 [unfolded sample_initial_def]]
  have "wf_event ScriptFinished" by simp
  from step_total [OF reachable_inv [OF r2 [unfolded sample_initial_def]] wf2 [unfolded a2] this]
  obtain a3 where s3: "step ScriptFinished (Some fb2, p2) = Inr a3"
    by blast
  from latch2 [THEN conjunct2, THEN conjunct2, THEN conjunct2, THEN conjunct1, rule_format,
      OF refl s3]
  obtain v where v: "AppView (fiber_props fb2) (fiber_ctx fb2) (current_override (Some fb2)) = Inr v"
    and c3: "current_override (fst a3) = (current_override (Some fb2) \<and> hasSidebarElements v)"
    by blast
  from v have "\<not> hasSidebarElements v"
    unfolding props2
    by (simp add: AppView_hasSidebarElements [OF _ sample_regions(2)] sample_block_simps)
  with c3 have o3: "\<not> current_override (fst a3)" by simp
  have "run ([sample_mount, ?RB] @ [ScriptFinished]) sample_initial =
          run [ScriptFinished] (Some fb2, p2)"
    by (simp only: run_append r2 sum.case)
  also have "\<dots> = Inr a3"
    by (simp only: run.simps s3 sum.case)
  finally have r3: "run [sample_mount, ?RB, ScriptFinished] sample_initial = Inr a3"
    by (simp only: append.simps)
  from o1 o2 o3 show ?thesis
    unfolding sample_run r2 r3 a2 by simp
qed

end
